theory Spec2Isabelle
  imports Main "HOL-Library.Word"
begin

chapter \<open>The synchronization engine of rdm-integration\<close>

text \<open>
  A shallow embedding of the engine's Go code: the streaming writer and the hash
  accumulators (\<open>src/unnamed/part_000\<close>), and the job queue, the worker with its write
  and rehash loops, the hash cache and the comparator's local hashes
  (\<open>src/image/app/utils/dataverse.go\<close>, cited below by its line numbers). The model
  comes first, the properties after it.
\<close>

section \<open>Errors\<close>

text \<open>
  The Go code reports failures as \<open>error\<close> values built with \<open>fmt.Errorf\<close>. The model
  keeps one constructor per failure site (the kinds of the specification's section 7),
  with the offending argument where the message carries one.
\<close>

datatype error =
    UnsupportedHash string
  | UnsupportedDriver string
  | MalformedPersistentId string
  | DatasetBusy
  | PermissionDenied
  | UpstreamHttp
  | StreamOpen
  | StreamRead
  | StreamWrite
  | Cancelled
  | WrongType
  | RedisNil
  | EOF
  | NilStream
  | WritingFailed "error option" "error option" "error option"
  | HashFailed string error

section \<open>Strings: \<open>strings.Split\<close>, \<open>strings.Join\<close>, \<open>trimProtocol\<close>\<close>

text \<open>
  Go strings are byte sequences; \<open>string\<close> (a list of 8-bit characters) models them.
  \<open>go_split sep cur s\<close> is \<open>strings.Split\<close> with a non-empty separator: it cuts at the
  leftmost occurrences of \<open>sep\<close>, which do not overlap; \<open>cur\<close> holds the bytes of the
  part being read. With an empty separator Go explodes the string into its characters.
\<close>

function go_split :: "string \<Rightarrow> string \<Rightarrow> string \<Rightarrow> string list" where
  "go_split sep cur [] = [cur]"
| "go_split sep cur (c # cs) =
     (if sep \<noteq> [] \<and> take (length sep) (c # cs) = sep
      then cur # go_split sep [] (drop (length sep) (c # cs))
      else go_split sep (cur @ [c]) cs)"
  by pat_completeness auto
termination
  by (relation "measure (\<lambda>(sep, cur, s). length s)") auto

definition Split :: "string \<Rightarrow> string \<Rightarrow> string list" where
  "Split s sep = (if sep = [] then map (\<lambda>c. [c]) s else go_split sep [] s)"

fun Join :: "string list \<Rightarrow> string \<Rightarrow> string" where
  "Join [] sep = []"
| "Join [x] sep = x"
| "Join (x # y # ys) sep = x @ sep @ Join (y # ys) sep"

text \<open>
  \<open>trimProtocol\<close> (part_000, lines 254-260): split at \<open>":"\<close>, fail on fewer than two
  parts, otherwise join the parts after the first with \<open>":"\<close> again.
\<close>

definition trimProtocol :: "string \<Rightarrow> error + string" where
  "trimProtocol persistentId =
     (let s = Split persistentId '':'' in
      if length s < 2 then Inl (MalformedPersistentId persistentId)
      else Inr (Join (drop 1 s) '':''))"

section \<open>Hash accumulators: \<open>getHash\<close>\<close>

text \<open>
  A byte is a \<open>char\<close> (8 bits), a byte slice a \<open>string\<close>. The digests of the Go
  standard library (\<open>crypto/md5\<close>, \<open>crypto/sha1\<close>) are parameters of the model: a
  \<open>hash.Hash\<close> is modelled by the bytes written to it so far, and \<open>Sum\<close> applies the
  digest function to them (the contract of \<open>hash.Hash\<close>: the digest depends on the
  concatenation of the writes only).
\<close>

type_synonym bytes = string
type_synonym int64 = "64 word"

record crypto =
  md5sum :: "bytes \<Rightarrow> bytes"
  sha1sum :: "bytes \<Rightarrow> bytes"
  sizesum :: "int64 \<Rightarrow> bytes"

text \<open>
  Modelled from the spec: the type \<open>FileSizeHash\<close> is not among the sources; the
  specification (section 4.1) describes it as a 64-bit counter of bytes seen. The bytes
  its \<open>Sum\<close> returns for a count are the parameter \<open>sizesum\<close>.
\<close>

datatype hasher =
    Md5Digest bytes
  | Sha1Digest bytes
  | FileSizeHash int64

fun hasher_Write :: "hasher \<Rightarrow> bytes \<Rightarrow> hasher" where
  "hasher_Write (Md5Digest fed) p = Md5Digest (fed @ p)"
| "hasher_Write (Sha1Digest fed) p = Sha1Digest (fed @ p)"
| "hasher_Write (FileSizeHash n) p = FileSizeHash (n + of_nat (length p))"

fun hasher_Sum :: "crypto \<Rightarrow> hasher \<Rightarrow> bytes" where
  "hasher_Sum c (Md5Digest fed) = md5sum c fed"
| "hasher_Sum c (Sha1Digest fed) = sha1sum c fed"
| "hasher_Sum c (FileSizeHash n) = sizesum c n"

text \<open>
  Modelled from the spec: the constants \<open>types.Md5\<close>, \<open>types.SHA1\<close>,
  \<open>types.GitHash\<close> and \<open>types.FileSize\<close> are not among the sources; they are the
  four kind names of the specification's section 3.
\<close>

definition Md5 :: string where "Md5 = ''md5''"
definition SHA1 :: string where "SHA1 = ''sha1''"
definition GitHash :: string where "GitHash = ''gitHash''"
definition FileSize :: string where "FileSize = ''fileSize''"

text \<open>\<open>fmt.Sprintf("%d", n)\<close> for an \<open>int64\<close>: the decimal digits, after a minus sign
  for a negative number.\<close>

definition digit_char :: "nat \<Rightarrow> char" where
  "digit_char d = char_of (48 + d)"

function decimal_nat :: "nat \<Rightarrow> string" where
  "decimal_nat n =
     (if n < 10 then [digit_char n] else decimal_nat (n div 10) @ [digit_char (n mod 10)])"
  by pat_completeness auto
termination
  by (relation "measure id") auto

declare decimal_nat.simps [simp del]

definition Sprintf_d :: "int64 \<Rightarrow> string" where
  "Sprintf_d n =
     (if sint n < 0 then ''-'' @ decimal_nat (nat (- sint n)) else decimal_nat (nat (sint n)))"

text \<open>\<open>getHash\<close> (part_000, lines 78-92).\<close>

definition getHash :: "string \<Rightarrow> int64 \<Rightarrow> error + hasher" where
  "getHash hashType fileSize =
     (if hashType = Md5 then Inr (Md5Digest [])
      else if hashType = SHA1 then Inr (Sha1Digest [])
      else if hashType = GitHash
        then Inr (hasher_Write (Sha1Digest []) (''blob '' @ Sprintf_d fileSize @ [CHR 0x00]))
      else if hashType = FileSize then Inr (FileSizeHash 0)
      else Inl (UnsupportedHash hashType))"

text \<open>The number a decimal string denotes, to state that \<open>decimal_nat\<close> is the decimal
  representation.\<close>

definition decimal_val :: "string \<Rightarrow> nat" where
  "decimal_val ds = foldl (\<lambda>a ch. 10 * a + (of_char ch - 48)) 0 ds"

section \<open>Data model\<close>

text \<open>
  Modelled from the spec: the package \<open>tree\<close> (the types \<open>Node\<close>, \<open>Attributes\<close>,
  \<open>Metadata\<close> and the action constants) is not among the sources. The records below
  have the fields the sources read and write (\<open>mapToNodes\<close>, \<open>filterRedundant\<close>,
  \<open>doPersistNodeMap\<close>, \<open>calculateHash\<close>), and the actions are the five of the
  specification's section 3. \<open>Equal\<close> stands for the zero value of a node built
  without an action.
\<close>

datatype action = Equal | New | Update | Delete | Unknown

record checksum =
  ChecksumType :: string
  ChecksumValue :: string

record dataFile =
  FileId :: int
  Filename :: string
  Filesize :: int64
  StorageIdentifier :: string
  Checksum :: checksum

record metadata =
  DirectoryLabel :: string
  DataFile :: dataFile

record attributes =
  ParentId :: string
  Metadata :: metadata
  IsFile :: bool
  LocalHash :: string
  RemoteHash :: string
  RemoteHashType :: string

record node =
  NodeId :: string
  Name :: string
  Path :: string
  Action :: action
  Attributes :: attributes

text \<open>
  A Go map that the code ranges over is an association list: the list's order is the
  order of that iteration, which Go leaves unspecified, so a theorem for every list is a
  theorem for every iteration order. Looking a key up is \<open>map_of\<close>; \<open>delete(m, k)\<close> is
  \<open>delete_key\<close>. Maps that are only looked up and updated are functions \<open>\<rightharpoonup>\<close>.
\<close>

type_synonym nodes = "(string \<times> node) list"

definition delete_key :: "string \<Rightarrow> nodes \<Rightarrow> nodes" where
  "delete_key k m = filter (\<lambda>kv. fst kv \<noteq> k) m"

text \<open>\<open>Job\<close> (dataverse.go, lines 378-385). The stream descriptions are opaque to the
  engine; their values are strings here.\<close>

record Job =
  DataverseKey :: string
  PersistentId :: string
  WritableNodes :: nodes
  StreamType :: string
  Streams :: "string \<rightharpoonup> (string \<rightharpoonup> string)"
  StreamParams :: "string \<rightharpoonup> string"

text \<open>\<open>calculatedHashes\<close> (dataverse.go, lines 484-488).\<close>

record calculatedHashes =
  LocalHashType :: string
  LocalHashValue :: string
  RemoteHashes :: "string \<rightharpoonup> string"

type_synonym knownHashes = "string \<rightharpoonup> calculatedHashes"

text \<open>
  The zero value of \<open>calculatedHashes\<close>, which \<open>knownHashes[k]\<close> yields for a missing
  key; a lookup in its nil map finds nothing.
\<close>

definition zeroHashes :: calculatedHashes where
  "zeroHashes = \<lparr>LocalHashType = [], LocalHashValue = [], RemoteHashes = Map.empty\<rparr>"

definition lookupHashes :: "knownHashes \<Rightarrow> string \<Rightarrow> calculatedHashes" where
  "lookupHashes knownHashes k = (case knownHashes k of None \<Rightarrow> zeroHashes | Some h \<Rightarrow> h)"

text \<open>\<open>fmt.Sprintf("%x", h)\<close> for a byte slice: two lower-case hexadecimal digits a byte.\<close>

definition hex_digit :: "nat \<Rightarrow> char" where
  "hex_digit d = (if d < 10 then char_of (48 + d) else char_of (87 + d))"

definition Sprintf_x :: "bytes \<Rightarrow> string" where
  "Sprintf_x h = concat (map (\<lambda>b. [hex_digit (of_char b div 16), hex_digit (of_char b mod 16)]) h)"

section \<open>The shared store\<close>

text \<open>
  One key space, as in Redis. A value is a string (\<open>RStr\<close>: the lock sentinel, which
  go-redis writes as \<open>"1"\<close>, and the transient markers), the JSON text of a hash cache
  (\<open>RHashes\<close>: the map it encodes stands for the text) or a list of JSON job records
  (\<open>RList\<close>: the jobs they encode). An entry may carry the time at which it expires;
  \<open>clock\<close> is the store's time in seconds, and an expired entry is not seen.
\<close>

datatype rvalue =
    RStr string
  | RHashes knownHashes
  | RList "Job list"

record rdb =
  clock :: nat
  kv :: "string \<rightharpoonup> (rvalue \<times> nat option)"

definition live :: "rdb \<Rightarrow> string \<Rightarrow> rvalue option" where
  "live s k =
     (case kv s k of
        None \<Rightarrow> None
      | Some (v, None) \<Rightarrow> Some v
      | Some (v, Some e) \<Rightarrow> if clock s < e then Some v else None)"

definition advance :: "nat \<Rightarrow> rdb \<Rightarrow> rdb" where
  "advance d s = s\<lparr>clock := clock s + d\<rparr>"

text \<open>\<open>SetNX key v ttl\<close>: set if absent, atomically; the reply is whether it was set.\<close>

definition SetNX :: "string \<Rightarrow> rvalue \<Rightarrow> nat \<Rightarrow> rdb \<Rightarrow> bool \<times> rdb" where
  "SetNX k v ttl s =
     (case live s k of
        Some _ \<Rightarrow> (False, s)
      | None \<Rightarrow> (True, s\<lparr>kv := (kv s)(k \<mapsto> (v, Some (clock s + ttl)))\<rparr>))"

text \<open>\<open>Set key v 0\<close>: no expiry.\<close>

definition Set_key :: "string \<Rightarrow> rvalue \<Rightarrow> rdb \<Rightarrow> rdb" where
  "Set_key k v s = s\<lparr>kv := (kv s)(k \<mapsto> (v, None))\<rparr>"

definition Del :: "string \<Rightarrow> rdb \<Rightarrow> rdb" where
  "Del k s = s\<lparr>kv := (kv s)(k := None)\<rparr>"

text \<open>\<open>Get(key).Val()\<close>: the string at the key, \<open>""\<close> when there is none or the key
  holds a list. The text of a hash cache is not modelled; \<open>GetVal\<close> is used on marker
  keys, and the comparisons made with its result (\<open>""\<close>, \<open>written\<close>, \<open>deleted\<close>) are
  false of any JSON object, hence the \<open>"{"\<close>.\<close>

definition GetVal :: "rdb \<Rightarrow> string \<Rightarrow> string" where
  "GetVal s k =
     (case live s k of
        Some (RStr v) \<Rightarrow> v
      | Some (RHashes m) \<Rightarrow> ''{''
      | _ \<Rightarrow> [])"

definition LPush :: "string \<Rightarrow> Job \<Rightarrow> rdb \<Rightarrow> error option \<times> rdb" where
  "LPush k x s =
     (case live s k of
        None \<Rightarrow> (None, s\<lparr>kv := (kv s)(k \<mapsto> (RList [x], None))\<rparr>)
      | Some (RList xs) \<Rightarrow>
          (None, s\<lparr>kv := (kv s)(k \<mapsto> (RList (x # xs), snd (the (kv s k))))\<rparr>)
      | Some _ \<Rightarrow> (Some WrongType, s))"

text \<open>\<open>RPop\<close>: the last element; Redis removes a list that becomes empty. The reply
  for a missing key is the error \<open>redis.Nil\<close>.\<close>

definition RPop :: "string \<Rightarrow> rdb \<Rightarrow> (error + Job) \<times> rdb" where
  "RPop k s =
     (case live s k of
        Some (RList xs) \<Rightarrow>
          (if xs = [] then (Inl RedisNil, s)
           else (Inr (last xs),
                 if butlast xs = [] then s\<lparr>kv := (kv s)(k := None)\<rparr>
                 else s\<lparr>kv := (kv s)(k \<mapsto> (RList (butlast xs), snd (the (kv s k))))\<rparr>))
      | None \<Rightarrow> (Inl RedisNil, s)
      | Some _ \<Rightarrow> (Inl WrongType, s))"

section \<open>The job queue\<close>

text \<open>\<open>lockMaxDuration\<close> is 24 hours (dataverse.go, line 390), in seconds.\<close>

definition lockMaxDuration :: nat where
  "lockMaxDuration = 24 * 3600"

definition lockKey :: "string \<Rightarrow> string" where
  "lockKey persistentId = ''lock: '' @ persistentId"

definition lock :: "string \<Rightarrow> rdb \<Rightarrow> bool \<times> rdb" where
  "lock persistentId s = SetNX (lockKey persistentId) (RStr ''1'') lockMaxDuration s"

definition unlock :: "string \<Rightarrow> rdb \<Rightarrow> rdb" where
  "unlock persistentId s = Del (lockKey persistentId) s"

text \<open>\<open>addJob\<close> (dataverse.go, lines 412-425). \<open>json.Marshal\<close> of a job does not fail;
  the queue holds the job the JSON text encodes.\<close>

definition addJob :: "Job \<Rightarrow> bool \<Rightarrow> rdb \<Rightarrow> error option \<times> rdb" where
  "addJob job requireLock s =
     (if length (WritableNodes job) = 0 then (None, s)
      else if requireLock then
        (case lock (PersistentId job) s of
           (False, s') \<Rightarrow> (Some DatasetBusy, s')
         | (True, s') \<Rightarrow> LPush ''jobs'' job s')
      else LPush ''jobs'' job s)"

text \<open>\<open>AddJob\<close> (dataverse.go, lines 401-410), the public enqueue.\<close>

definition AddJob :: "Job \<Rightarrow> rdb \<Rightarrow> error option \<times> rdb" where
  "AddJob job s =
     (if length (WritableNodes job) = 0 then (None, s) else addJob job True s)"

text \<open>\<open>popJob\<close> (dataverse.go, lines 427-441).\<close>

definition popJob :: "rdb \<Rightarrow> Job option \<times> rdb" where
  "popJob s =
     (case RPop ''jobs'' s of
        (Inl err, s') \<Rightarrow> (None, s')
      | (Inr job, s') \<Rightarrow> (Some job, s'))"

section \<open>The hash cache\<close>

text \<open>\<open>getKnownHashes\<close>, \<open>storeKnownHashes\<close> and \<open>invalidateKnownHashes\<close>
  (dataverse.go, lines 559-580). A value that is not the JSON text of a cache does not
  parse, and the cache read is empty.\<close>

definition hashesKey :: "string \<Rightarrow> string" where
  "hashesKey persistentId = ''hashes: '' @ persistentId"

definition getKnownHashes :: "rdb \<Rightarrow> string \<Rightarrow> knownHashes" where
  "getKnownHashes s persistentId =
     (case live s (hashesKey persistentId) of
        Some (RHashes m) \<Rightarrow> m
      | _ \<Rightarrow> Map.empty)"

definition storeKnownHashes :: "string \<Rightarrow> knownHashes \<Rightarrow> rdb \<Rightarrow> rdb" where
  "storeKnownHashes persistentId known s = Set_key (hashesKey persistentId) (RHashes known) s"

definition invalidateKnownHashes :: "string \<Rightarrow> rdb \<Rightarrow> rdb" where
  "invalidateKnownHashes persistentId s = Del (hashesKey persistentId) s"

section \<open>What happens to the store while a job is in progress\<close>

text \<open>
  Between the public enqueue of a job and the \<open>unlock\<close> that \<open>ProcessJobs\<close> performs
  when the job has completed or failed, the store sees: time passing, workers popping
  jobs, a worker putting a residual job back (\<open>addJob job false\<close>), the cache being
  stored, public enqueues, and the \<open>unlock\<close> of other datasets.
\<close>

datatype store_op =
    Wait nat
  | Pop
  | Requeue Job
  | Store string knownHashes
  | Enqueue Job
  | Unlock string

fun apply_op :: "store_op \<Rightarrow> rdb \<Rightarrow> rdb" where
  "apply_op (Wait d) s = advance d s"
| "apply_op Pop s = snd (popJob s)"
| "apply_op (Requeue job) s = snd (addJob job False s)"
| "apply_op (Store persistentId known) s = storeKnownHashes persistentId known s"
| "apply_op (Enqueue job) s = snd (AddJob job s)"
| "apply_op (Unlock persistentId) s = unlock persistentId s"

fun run_ops :: "store_op list \<Rightarrow> rdb \<Rightarrow> rdb" where
  "run_ops [] s = s"
| "run_ops (x # xs) s = run_ops xs (apply_op x s)"

fun waited :: "store_op list \<Rightarrow> nat" where
  "waited [] = 0"
| "waited (Wait d # xs) = d + waited xs"
| "waited (x # xs) = waited xs"

fun unlocked :: "store_op list \<Rightarrow> string list" where
  "unlocked [] = []"
| "unlocked (Unlock p # xs) = p # unlocked xs"
| "unlocked (x # xs) = unlocked xs"

text \<open>The lock entry of a dataset, set by \<open>lock\<close> and expiring at \<open>e\<close>.\<close>

definition holds_lock :: "rdb \<Rightarrow> string \<Rightarrow> nat \<Rightarrow> bool" where
  "holds_lock s p e = (kv s (lockKey p) = Some (RStr ''1'', Some e))"

section \<open>Configuration and the world outside the engine\<close>

text \<open>
  The process configuration (\<open>config.Options\<close>, the package variables \<open>directUpload\<close>
  and \<open>defaultHash\<close>) is a record. What the engine reaches over the network or the file
  system answers through the fields of \<open>engine\<close>: the digests, the storage backends, the
  stored files, the dataset repository, the streams of the source repository, the
  generated file names and the cancellation of the job's context.
\<close>

record config =
  DefaultDriver :: string
  AWSBucket :: string
  PathToFilesDir :: string
  directUpload :: string
  defaultHash :: string

text \<open>A stream of the source repository (\<open>types.Stream\<close>): what \<open>Open\<close> returns and,
  for the reader it opens, what each \<open>Read\<close> returns in turn (the bytes read and the
  error); after the last scripted \<open>Read\<close> the reader is at its end.\<close>

record stream =
  openErr :: "error option"
  script :: "(bytes \<times> error option) list"

text \<open>Where a write goes and where a stored file is read from: the SWORD deposit of a ZIP
  with one entry (persistent id, entry name) or the download by file id, a local path, an
  S3 bucket and key.\<close>

datatype target = Sword string string | LocalFile string | S3Object string string

datatype source = Download int | OpenFile string | GetObject string string

text \<open>How a backend behaves: the error of opening the sink (\<open>zipWriter.Create\<close>,
  \<open>os.MkdirAll\<close> and \<open>os.Create\<close>, \<open>session.NewSession\<close>), the number of bytes the
  sink accepts before its writes fail (\<open>None\<close>: any number), the error of closing it (for
  S3, of the upload) and the error of the background deposit.\<close>

record backend =
  createErr :: "error option"
  room :: "nat option"
  closeErr :: "error option"
  asyncErr :: "error option"

text \<open>The body of a file registration (\<open>dv.JsonData\<close>).\<close>

record jsonData =
  jsonStorageIdentifier :: string
  jsonFileName :: string
  jsonDirectoryLabel :: "string option"
  jsonMimeType :: string
  jsonChecksum :: checksum

record engine =
  cfg :: config
  digests :: crypto
  backendOf :: "target \<Rightarrow> backend"
  stored :: "source \<Rightarrow> stream"
  permission :: "string \<Rightarrow> string \<Rightarrow> error option"
  listing :: "string \<Rightarrow> string \<Rightarrow> error + metadata list"
  deleteFile :: "string \<Rightarrow> int \<Rightarrow> error option"
  addFiles :: "string \<Rightarrow> string \<Rightarrow> jsonData \<Rightarrow> error option"
  cleanStorage :: "string \<Rightarrow> string \<Rightarrow> error option"
  deserialize :: "Job \<Rightarrow> error + (string \<rightharpoonup> stream)"
  fileNames :: "nat \<Rightarrow> string"
  cancelled :: "nat \<Rightarrow> bool"

section \<open>The hashing stream\<close>

text \<open>
  The hashers of a write are shared between the readers that feed them and the code that
  reads their sums afterwards: they live in a store of hashers with a place for each of
  the variables \<open>hasher\<close>, \<open>sizeHasher\<close> and \<open>remoteHasher\<close>, and a \<open>hashingReader\<close>
  holds the place of its hasher. \<open>Read\<close> of a \<open>hashingReader\<close> (part_000, lines 40-44)
  reads from the reader below and writes the bytes read to its hasher.
\<close>

datatype place = TheHasher | TheSizeHasher | TheRemoteHasher

datatype reader = Source "(bytes \<times> error option) list" | HashingReader reader place

type_synonym hashers = "place \<Rightarrow> hasher"

fun Read :: "reader \<Rightarrow> hashers \<Rightarrow> (bytes \<times> error option) \<times> reader \<times> hashers" where
  "Read (Source []) hs = (([], Some EOF), Source [], hs)"
| "Read (Source (x # xs)) hs = (x, Source xs, hs)"
| "Read (HashingReader r h) hs =
     (case Read r hs of
        ((buf, err), r', hs') \<Rightarrow> ((buf, err), HashingReader r' h, hs'(h := hasher_Write (hs' h) buf)))"

fun pending :: "reader \<Rightarrow> nat" where
  "pending (Source xs) = length xs"
| "pending (HashingReader r h) = pending r"

record sink =
  sunk :: bytes
  limit :: "nat option"

definition sink_Write :: "sink \<Rightarrow> bytes \<Rightarrow> error option \<times> sink" where
  "sink_Write dst buf =
     (case limit dst of
        None \<Rightarrow> (None, dst\<lparr>sunk := sunk dst @ buf\<rparr>)
      | Some n \<Rightarrow>
          if length (sunk dst) + length buf \<le> n then (None, dst\<lparr>sunk := sunk dst @ buf\<rparr>)
          else (Some StreamWrite, dst))"

text \<open>\<open>io.Copy\<close>: read until the reader's end or an error, writing what each \<open>Read\<close>
  returned; the reader's end is not an error of the copy. A \<open>Read\<close> without an error
  uses up one scripted answer, so the copy ends.\<close>

function Copy :: "sink \<Rightarrow> reader \<Rightarrow> hashers \<Rightarrow> error option \<times> sink \<times> reader \<times> hashers" where
  "Copy dst src hs =
     (case Read src hs of
        ((buf, er), src', hs') \<Rightarrow>
          (case (if buf \<noteq> [] then sink_Write dst buf else (None, dst)) of
             (Some ew, dst') \<Rightarrow> (Some ew, dst', src', hs')
           | (None, dst') \<Rightarrow>
               (case er of
                  Some e \<Rightarrow> (if e = EOF then None else Some e, dst', src', hs')
                | None \<Rightarrow> Copy dst' src' hs')))"
  by pat_completeness auto
termination
proof (relation "measure (\<lambda>(dst, src, hs). pending src)", goal_cases)
  case 1
  show ?case by simp
next
  case (2 dst src hs x y xa ya xb yb xc yc)
  have shorter: "Read r h = ((b, None), r', h') \<Longrightarrow> pending r' < pending r" for r h b r' h'
  proof (induction r arbitrary: r' h')
    case (Source xs)
    then show ?case by (cases xs) auto
  next
    case (HashingReader r n)
    then show ?case by (auto split: prod.splits)
  qed
  from 2 have "Read src hs = ((xa, None), xb, yb)" by simp
  then show ?case by (simp add: shorter)
qed

declare Copy.simps [simp del]


text \<open>
  What a stream holds: \<open>delivered\<close> is the sequence of the bytes that its reads return
  up to its end, and \<open>ending\<close> the error that ends it. The end is the first read that
  returns an error; a script that has run out answers \<open>io.EOF\<close>.
\<close>

fun delivered :: "(bytes \<times> error option) list \<Rightarrow> bytes" where
  "delivered [] = []"
| "delivered ((b, None) # xs) = b @ delivered xs"
| "delivered ((b, Some e) # xs) = b"

fun ending :: "(bytes \<times> error option) list \<Rightarrow> error" where
  "ending [] = EOF"
| "ending ((b, None) # xs) = ending xs"
| "ending ((b, Some e) # xs) = e"

section \<open>The streaming writer\<close>

text \<open>\<open>getStorage\<close> (part_000, lines 46-61).\<close>

record storage =
  driver :: string
  bucket :: string
  sfilename :: string

definition getStorage :: "string \<Rightarrow> storage" where
  "getStorage storageIdentifier =
     (let first = Split storageIdentifier ''://'' in
      if length first = 2 then
        (let second = Split (first ! 1) '':'' in
         if length second = 2
         then \<lparr>driver = first ! 0, bucket = second ! 0, sfilename = second ! 1\<rparr>
         else \<lparr>driver = first ! 0, bucket = [], sfilename = first ! 1\<rparr>)
      else \<lparr>driver = [], bucket = [], sfilename = []\<rparr>)"

text \<open>\<open>generateStorageIdentifier\<close> (part_000, lines 70-76).\<close>

definition generateStorageIdentifier :: "config \<Rightarrow> string \<Rightarrow> string" where
  "generateStorageIdentifier c fileName =
     (let b = (if DefaultDriver c = ''s3'' then AWSBucket c @ '':'' else [])
      in DefaultDriver c @ ''://'' @ b @ fileName)"

definition open_sink :: "backend \<Rightarrow> sink" where
  "open_sink b = \<lparr>sunk = [], limit = room b\<rparr>"

text \<open>\<open>getFile\<close> (part_000, lines 172-197): the ZIP entry of an indirect upload, or the
  local file. The result names the target next to the sink opened on it.\<close>

definition getFile ::
  "engine \<Rightarrow> string \<Rightarrow> string \<Rightarrow> storage \<Rightarrow> string \<Rightarrow> error + (target \<times> sink)" where
  "getFile eng persistentId pid s ident =
     (let t = (if directUpload (cfg eng) \<noteq> ''true'' \<or> DefaultDriver (cfg eng) = []
               then Sword persistentId ident
               else LocalFile (PathToFilesDir (cfg eng) @ pid @ ''/'' @ sfilename s))
      in case createErr (backendOf eng t) of
           Some err \<Rightarrow> Inl err
         | None \<Rightarrow> Inr (t, open_sink (backendOf eng t)))"

fun FileSize_of :: "hasher \<Rightarrow> int64" where
  "FileSize_of (FileSizeHash n) = n"
| "FileSize_of _ = 0"

text \<open>
  \<open>write\<close> (part_000, lines 94-155), named \<open>write_stream\<close> here. Only the indirect
  upload has a background deposit whose error is read after the copy. The
  result is the triple of the Go function or its error, and next to it the target and the
  bytes its sink has received (\<open>None\<close> when no sink was opened).
\<close>

definition write_stream ::
  "engine \<Rightarrow> string \<Rightarrow> stream \<Rightarrow> string \<Rightarrow> string \<Rightarrow> string \<Rightarrow> string \<Rightarrow> string \<Rightarrow> int64
     \<Rightarrow> (error + bytes \<times> bytes \<times> int64) \<times> (target \<times> bytes) option" where
  "write_stream eng dataverseKey fileStream storageIdentifier persistentId hashType
       remoteHashType ident fileSize =
     (case trimProtocol persistentId of
        Inl err \<Rightarrow> (Inl err, None)
      | Inr pid \<Rightarrow>
     (let s = getStorage storageIdentifier in
      case getHash hashType fileSize of
        Inl err \<Rightarrow> (Inl err, None)
      | Inr hasher \<Rightarrow>
     (case getHash remoteHashType fileSize of
        Inl err \<Rightarrow> (Inl err, None)
      | Inr remoteHasher \<Rightarrow>
     (case openErr fileStream of
        Some err \<Rightarrow> (Inl err, None)
      | None \<Rightarrow>
     (let hs = (\<lambda>i. case i of TheHasher \<Rightarrow> hasher | TheSizeHasher \<Rightarrow> FileSizeHash 0
                      | TheRemoteHasher \<Rightarrow> remoteHasher);
          reader = HashingReader (HashingReader (HashingReader (Source (script fileStream))
                     TheHasher) TheSizeHasher) TheRemoteHasher
      in
      if driver s = ''file'' \<or> DefaultDriver (cfg eng) = [] \<or> directUpload (cfg eng) \<noteq> ''true''
      then
        (case getFile eng persistentId pid s ident of
           Inl err \<Rightarrow> (Inl err, None)
         | Inr (t, f) \<Rightarrow>
             (case Copy f reader hs of
                (err_copy, f', reader', hs') \<Rightarrow>
                  (let err_close = closeErr (backendOf eng t);
                       async_err = (case t of Sword p i \<Rightarrow> asyncErr (backendOf eng t)
                                    | _ \<Rightarrow> None)
                   in if err_copy \<noteq> None \<or> err_close \<noteq> None \<or> async_err \<noteq> None
                      then (Inl (WritingFailed err_close err_copy async_err), Some (t, sunk f'))
                      else (Inr (hasher_Sum (digests eng) (hs' TheHasher),
                                 hasher_Sum (digests eng) (hs' TheRemoteHasher),
                                 FileSize_of (hs' TheSizeHasher)),
                            Some (t, sunk f')))))
      else if driver s = ''s3'' then
        (let t = S3Object (bucket s) (pid @ ''/'' @ sfilename s) in
         case createErr (backendOf eng t) of
           Some err \<Rightarrow> (Inl err, None)
         | None \<Rightarrow>
             (case Copy (open_sink (backendOf eng t)) reader hs of
                (err_copy, f', reader', hs') \<Rightarrow>
                  (case err_copy of
                     Some err \<Rightarrow> (Inl err, Some (t, sunk f'))
                   | None \<Rightarrow>
                       (case closeErr (backendOf eng t) of
                          Some err \<Rightarrow> (Inl err, Some (t, sunk f'))
                        | None \<Rightarrow>
                            (Inr (hasher_Sum (digests eng) (hs' TheHasher),
                                  hasher_Sum (digests eng) (hs' TheRemoteHasher),
                                  FileSize_of (hs' TheSizeHasher)),
                             Some (t, sunk f'))))))
      else (Inl (UnsupportedDriver (driver s)), None))))))"

text \<open>
  \<open>doHash\<close> (part_000, lines 199-252): the sum of the remote-kind hasher over the bytes
  of the stored file, with the error of the copy; next to it the sources it opened.
  \<open>hashStored\<close> is what its three branches share: open the source, then copy it
  through the hashing reader to \<open>io.Discard\<close>.
\<close>

definition hashStored ::
  "engine \<Rightarrow> source \<Rightarrow> hasher \<Rightarrow> (bytes \<times> error option) \<times> source list" where
  "hashStored eng src hasher =
     (case openErr (stored eng src) of
        Some err \<Rightarrow> (([], Some err), [src])
      | None \<Rightarrow>
          (case Copy \<lparr>sunk = [], limit = None\<rparr>
                  (HashingReader (Source (script (stored eng src))) TheHasher) (\<lambda>i. hasher) of
             (err, d, r, hs') \<Rightarrow> ((hasher_Sum (digests eng) (hs' TheHasher), err), [src])))"

definition doHash ::
  "engine \<Rightarrow> string \<Rightarrow> string \<Rightarrow> node \<Rightarrow> (bytes \<times> error option) \<times> source list" where
  "doHash eng dataverseKey persistentId nd =
     (case trimProtocol persistentId of
        Inl err \<Rightarrow> (([], Some err), [])
      | Inr pid \<Rightarrow>
     (let file = DataFile (Metadata (Attributes nd)) in
      case getHash (RemoteHashType (Attributes nd)) (Filesize file) of
        Inl err \<Rightarrow> (([], Some err), [])
      | Inr hasher \<Rightarrow>
     (let s = getStorage (StorageIdentifier file) in
      if DefaultDriver (cfg eng) = [] \<or> directUpload (cfg eng) \<noteq> ''true''
      then hashStored eng (Download (FileId file)) hasher
      else if driver s = ''file''
      then hashStored eng (OpenFile (PathToFilesDir (cfg eng) @ pid @ ''/'' @ sfilename s)) hasher
      else if driver s = ''s3''
      then hashStored eng (GetObject (bucket s) (pid @ ''/'' @ sfilename s)) hasher
      else (([], Some (UnsupportedDriver (driver s))), []))))"

text \<open>
  The hash of a byte sequence as the specification defines it for each kind (sections 4.1
  and 8): MD5, SHA-1, for \<open>gitHash\<close> the SHA-1 of \<open>"blob "\<close>, the decimal length, a zero
  byte and the bytes, and for \<open>fileSize\<close> the count of the bytes.
\<close>

definition spec_hash :: "crypto \<Rightarrow> string \<Rightarrow> bytes \<Rightarrow> bytes" where
  "spec_hash c kind B =
     (if kind = Md5 then md5sum c B
      else if kind = SHA1 then sha1sum c B
      else if kind = GitHash then sha1sum c (''blob '' @ decimal_nat (length B) @ [CHR 0x00] @ B)
      else sizesum c (of_nat (length B)))"

section \<open>The dataset repository\<close>

text \<open>The calls a job makes to the dataset repository and to the storage, in the order
  it makes them.\<close>

datatype call =
    CheckPermissionCall string string
  | ListFilesCall string string
  | DeleteCall string int
  | AddFilesCall string string jsonData
  | CleanupCall string string
  | WriteCall "(target \<times> bytes) option"
  | ReadCall source

text \<open>\<open>mapToNodes\<close> (dataverse.go, lines 41-62).\<close>

definition mapToNode :: "metadata \<Rightarrow> string \<times> node" where
  "mapToNode d =
     (let dir = (if DirectoryLabel d \<noteq> [] then DirectoryLabel d @ ''/'' else []);
          ident = dir @ Filename (DataFile d)
      in (ident,
          \<lparr>NodeId = ident, Name = Filename (DataFile d), Path = DirectoryLabel d, Action = Equal,
           Attributes = \<lparr>ParentId = DirectoryLabel d, Metadata = d, IsFile = True,
             LocalHash = ChecksumValue (Checksum (DataFile d)),
             RemoteHash = [], RemoteHashType = []\<rparr>\<rparr>))"

fun mapToNodes_loop :: "metadata list \<Rightarrow> (string \<rightharpoonup> node) \<Rightarrow> (string \<rightharpoonup> node)" where
  "mapToNodes_loop [] res = res"
| "mapToNodes_loop (d # ds) res =
     mapToNodes_loop ds (res(fst (mapToNode d) \<mapsto> snd (mapToNode d)))"

definition mapToNodes :: "metadata list \<Rightarrow> (string \<rightharpoonup> node)" where
  "mapToNodes ds = mapToNodes_loop ds Map.empty"

text \<open>\<open>GetNodeMap\<close> (dataverse.go, lines 15-39): every failure of the request, of the
  decoding and of the status is the error of \<open>listing\<close>.\<close>

definition GetNodeMap :: "engine \<Rightarrow> string \<Rightarrow> string \<Rightarrow> error + (string \<rightharpoonup> node)" where
  "GetNodeMap eng persistentId token =
     (case listing eng persistentId token of
        Inl err \<Rightarrow> Inl err
      | Inr ds \<Rightarrow> Inr (mapToNodes ds))"

section \<open>Filtering redundant actions\<close>

text \<open>
  \<open>filterRedundant\<close> (dataverse.go, lines 91-119). Its two loops build a new map each;
  \<open>filterEqual\<close> is the first, with the accumulators \<open>filteredEqual\<close> and \<open>isDelete\<close>,
  \<open>filterDeletes\<close> the second, with the accumulator \<open>res\<close>.
\<close>

fun filterEqual :: "knownHashes \<Rightarrow> nodes \<Rightarrow> nodes \<times> bool \<Rightarrow> nodes \<times> bool" where
  "filterEqual knownHashes [] acc = acc"
| "filterEqual knownHashes ((k, v) # rest) (filteredEqual, isDelete) =
     (let h = RemoteHashes (lookupHashes knownHashes k) (RemoteHashType (Attributes v)) in
      if Action v = Delete then filterEqual knownHashes rest (filteredEqual @ [(k, v)], True)
      else if h = Some (RemoteHash (Attributes v)) then filterEqual knownHashes rest (filteredEqual, isDelete)
      else filterEqual knownHashes rest (filteredEqual @ [(k, v)], isDelete))"

fun filterDeletes :: "(string \<rightharpoonup> node) \<Rightarrow> nodes \<Rightarrow> nodes \<Rightarrow> nodes" where
  "filterDeletes nm [] res = res"
| "filterDeletes nm ((k, v) # rest) res =
     (if Action v = Delete \<and> nm k \<noteq> None then filterDeletes nm rest res
      else filterDeletes nm rest (res @ [(k, v)]))"

definition filterRedundant :: "engine \<Rightarrow> Job \<Rightarrow> knownHashes \<Rightarrow> (error + nodes) \<times> call list" where
  "filterRedundant eng job knownHashes =
     (case filterEqual knownHashes (WritableNodes job) ([], False) of
        (filteredEqual, isDelete) \<Rightarrow>
          if \<not> isDelete then (Inr filteredEqual, [])
          else
            (case GetNodeMap eng (PersistentId job) (DataverseKey job) of
               Inl err \<Rightarrow> (Inl err, [ListFilesCall (PersistentId job) (DataverseKey job)])
             | Inr nm \<Rightarrow>
                 (Inr (filterDeletes nm filteredEqual []),
                  [ListFilesCall (PersistentId job) (DataverseKey job)])))"

section \<open>The write loop\<close>

text \<open>What a job mutates while it runs: the cache it holds in memory, the nodes left in
  \<open>out.WritableNodes\<close>, the shared store, and the calls made so far.\<close>

record wstate =
  known :: knownHashes
  residual :: nodes
  store :: rdb
  calls :: "call list"

text \<open>The nodes left after the nodes \<open>ds\<close> have been deleted from \<open>nds\<close>, one by one.\<close>

definition removed :: "nodes \<Rightarrow> nodes \<Rightarrow> nodes" where
  "removed ds nds = fold (\<lambda>kv. delete_key (fst kv)) ds nds"

definition zeroJob :: Job where
  "zeroJob = \<lparr>DataverseKey = [], PersistentId = [], WritableNodes = [], StreamType = [],
              Streams = Map.empty, StreamParams = Map.empty\<rparr>"

definition flush :: "string \<Rightarrow> wstate \<Rightarrow> wstate" where
  "flush persistentId st = st\<lparr>store := storeKnownHashes persistentId (known st) (store st)\<rparr>"

definition called :: "call \<Rightarrow> wstate \<Rightarrow> wstate" where
  "called c st = st\<lparr>calls := calls st @ [c]\<rparr>"

text \<open>
  The body of the loop of \<open>doPersistNodeMap\<close> for one node (dataverse.go, lines 145-196),
  \<open>i\<close> being the loop's counter. The source calls an earlier \<open>write\<close> of seven
  arguments and three results; the model calls \<open>write_stream\<close> with the job's key and
  the node's key for the two arguments added since, and drops the size. A key with no
  stream yields the zero stream in Go, whose \<open>Open\<close> is nil: the call panics, which is
  the error \<open>NilStream\<close> here.
\<close>

definition persistNode ::
  "engine \<Rightarrow> Job \<Rightarrow> (string \<rightharpoonup> stream) \<Rightarrow> string \<Rightarrow> node \<Rightarrow> nat \<Rightarrow> wstate
     \<Rightarrow> error option \<times> wstate" where
  "persistNode eng job streams k v i st =
     (let dataverseKey = DataverseKey job; persistentId = PersistentId job;
          file = DataFile (Metadata (Attributes v))
      in
      if Action v = Delete then
        (case deleteFile eng dataverseKey (FileId file) of
           Some err \<Rightarrow> (Some err, called (DeleteCall dataverseKey (FileId file)) st)
         | None \<Rightarrow>
             (None, (called (DeleteCall dataverseKey (FileId file)) st)
                      \<lparr>known := (known st)(NodeId v := None),
                       residual := delete_key k (residual st)\<rparr>))
      else
        (case streams k of
           None \<Rightarrow> (Some NilStream, st)
         | Some fileStream \<Rightarrow>
        (let fileName = fileNames eng i;
             storageIdentifier = generateStorageIdentifier (cfg eng) fileName;
             hashType = defaultHash (cfg eng);
             remoteHashType = RemoteHashType (Attributes v)
         in
         case write_stream eng dataverseKey fileStream storageIdentifier persistentId
                hashType remoteHashType k (Filesize file) of
           (Inl err, w) \<Rightarrow> (Some err, called (WriteCall w) st)
         | (Inr (h, remoteH, sz), w) \<Rightarrow>
        (let hashValue = Sprintf_x h;
             st1 = (called (WriteCall w) st)
                     \<lparr>known := (known st)(NodeId v \<mapsto>
                        \<lparr>LocalHashType = hashType, LocalHashValue = hashValue,
                         RemoteHashes = [remoteHashType \<mapsto> Sprintf_x remoteH]\<rparr>)\<rparr>;
             deleted = (if FileId file \<noteq> 0
                        then (deleteFile eng dataverseKey (FileId file),
                              called (DeleteCall dataverseKey (FileId file)) st1)
                        else (None, st1))
         in
         case deleted of
           (Some err, st2) \<Rightarrow> (Some err, st2)
         | (None, st2) \<Rightarrow>
        (let directoryLabel = (if DirectoryLabel (Metadata (Attributes v)) = [] then None
                               else Some (DirectoryLabel (Metadata (Attributes v))));
             d = \<lparr>jsonStorageIdentifier = storageIdentifier, jsonFileName = Filename file,
                  jsonDirectoryLabel = directoryLabel,
                  jsonMimeType = ''application/octet-stream'',
                  jsonChecksum = \<lparr>ChecksumType = hashType, ChecksumValue = hashValue\<rparr>\<rparr>;
             st3 = called (AddFilesCall dataverseKey persistentId d) st2
         in
         case addFiles eng dataverseKey persistentId d of
           Some err \<Rightarrow> (Some err, st3)
         | None \<Rightarrow> (None, st3\<lparr>residual := delete_key k (residual st3)\<rparr>))))))"

text \<open>
  The loop of \<open>doPersistNodeMap\<close> (dataverse.go, lines 133-197) over the nodes still to
  visit. Every \<open>return\<close> inside the loop carries an error, a cancelled context among
  them; \<open>cancelled eng i\<close> is what the \<open>select\<close> on \<open>ctx.Done()\<close> finds after \<open>i\<close>
  nodes.
\<close>

fun persistLoop ::
  "engine \<Rightarrow> Job \<Rightarrow> (string \<rightharpoonup> stream) \<Rightarrow> nat \<Rightarrow> nodes \<Rightarrow> nat \<Rightarrow> wstate
     \<Rightarrow> error option \<times> wstate" where
  "persistLoop eng job streams tot [] i st = (None, st)"
| "persistLoop eng job streams tot ((k, v) # rest) i st =
     (if cancelled eng i then (Some Cancelled, st)
      else
        (let st1 = (if Suc i mod 10 = 0 \<and> Suc i < tot then flush (PersistentId job) st else st)
         in case persistNode eng job streams k v (Suc i) st1 of
              (Some err, st2) \<Rightarrow> (Some err, st2)
            | (None, st2) \<Rightarrow> persistLoop eng job streams tot rest (Suc i) st2))"

text \<open>
  \<open>doPersistNodeMap\<close> (dataverse.go, lines 121-206). A failed permission check returns
  before \<open>out\<close> is assigned and before the deferred store of the cache is registered;
  every later return stores the cache.
\<close>

definition doPersistNodeMap ::
  "engine \<Rightarrow> (string \<rightharpoonup> stream) \<Rightarrow> Job \<Rightarrow> knownHashes \<Rightarrow> rdb
     \<Rightarrow> (Job \<times> error option) \<times> wstate" where
  "doPersistNodeMap eng streams job knownHashes s =
     (let dataverseKey = DataverseKey job; persistentId = PersistentId job;
          writableNodes = WritableNodes job;
          st0 = \<lparr>known = knownHashes, residual = writableNodes, store = s,
                 calls = [CheckPermissionCall dataverseKey persistentId]\<rparr>
      in
      case permission eng dataverseKey persistentId of
        Some err \<Rightarrow> ((zeroJob, Some err), st0)
      | None \<Rightarrow>
          (case persistLoop eng job streams (length writableNodes) writableNodes 0 st0 of
             (Some err, st) \<Rightarrow>
               ((job\<lparr>WritableNodes := residual st\<rparr>, Some err), flush persistentId st)
           | (None, st) \<Rightarrow>
               if cancelled eng (length writableNodes)
               then ((job\<lparr>WritableNodes := residual st\<rparr>, Some Cancelled), flush persistentId st)
               else ((job\<lparr>WritableNodes := residual st\<rparr>, cleanStorage eng dataverseKey persistentId),
                     flush persistentId (called (CleanupCall dataverseKey persistentId) st))))"

section \<open>The rehash loop\<close>

text \<open>
  \<open>calculateHash\<close> (dataverse.go, lines 582-604): the error, the cache, and the sources
  it has read from.
\<close>

definition calculateHash ::
  "engine \<Rightarrow> string \<Rightarrow> string \<Rightarrow> node \<Rightarrow> knownHashes
     \<Rightarrow> error option \<times> knownHashes \<times> source list" where
  "calculateHash eng dataverseKey persistentId nd knownHashes =
     (let hashType = RemoteHashType (Attributes nd);
          sum = Checksum (DataFile (Metadata (Attributes nd)));
          kn0 = lookupHashes knownHashes (NodeId nd);
          ok = (knownHashes (NodeId nd) \<noteq> None);
          matching = (ok \<and> LocalHashType kn0 = ChecksumType sum
                         \<and> LocalHashValue kn0 = ChecksumValue sum)
      in
      if matching \<and> RemoteHashes kn0 hashType \<noteq> None
      then (None, knownHashes, [])
      else
        (let kn = (if matching then kn0
                   else \<lparr>LocalHashType = ChecksumType sum, LocalHashValue = ChecksumValue sum,
                         RemoteHashes = Map.empty\<rparr>)
         in case doHash eng dataverseKey persistentId nd of
              ((h, Some err), srcs) \<Rightarrow>
                (Some (HashFailed (StorageIdentifier (DataFile (Metadata (Attributes nd)))) err),
                 knownHashes, srcs)
            | ((h, None), srcs) \<Rightarrow>
                (None,
                 knownHashes(NodeId nd \<mapsto> kn\<lparr>RemoteHashes := (RemoteHashes kn)(hashType \<mapsto> Sprintf_x h)\<rparr>),
                 srcs)))"

text \<open>The loop of \<open>doRehash\<close> (dataverse.go, lines 544-555).\<close>

fun rehashLoop ::
  "engine \<Rightarrow> string \<Rightarrow> string \<Rightarrow> nat \<Rightarrow> nodes \<Rightarrow> nat \<Rightarrow> wstate \<Rightarrow> error option \<times> wstate" where
  "rehashLoop eng dataverseKey persistentId tot [] i st = (None, st)"
| "rehashLoop eng dataverseKey persistentId tot ((k, nd) # rest) i st =
     (case calculateHash eng dataverseKey persistentId nd (known st) of
        (Some err, kn, srcs) \<Rightarrow> (Some err, st\<lparr>calls := calls st @ map ReadCall srcs\<rparr>)
      | (None, kn, srcs) \<Rightarrow>
          (let st1 = st\<lparr>known := kn, calls := calls st @ map ReadCall srcs\<rparr>;
               st2 = (if Suc i mod 10 = 0 \<and> Suc i < tot then flush persistentId st1 else st1)
           in rehashLoop eng dataverseKey persistentId tot rest (Suc i)
                (st2\<lparr>residual := delete_key k (residual st2)\<rparr>)))"

text \<open>The cache that the loop of \<open>doRehash\<close> holds after its steps for the nodes given:
  each step leaves the cache that \<open>calculateHash\<close> returns.\<close>

fun rehashed :: "engine \<Rightarrow> string \<Rightarrow> string \<Rightarrow> nodes \<Rightarrow> knownHashes \<Rightarrow> knownHashes" where
  "rehashed eng dataverseKey persistentId [] knownHashes = knownHashes"
| "rehashed eng dataverseKey persistentId ((k, nd) # rest) knownHashes =
     rehashed eng dataverseKey persistentId rest
       (fst (snd (calculateHash eng dataverseKey persistentId nd knownHashes)))"

text \<open>\<open>doRehash\<close> (dataverse.go, lines 532-557).\<close>

definition doRehash ::
  "engine \<Rightarrow> string \<Rightarrow> string \<Rightarrow> nodes \<Rightarrow> Job \<Rightarrow> rdb \<Rightarrow> (Job \<times> error option) \<times> wstate" where
  "doRehash eng dataverseKey persistentId nds job s =
     (case permission eng dataverseKey persistentId of
        Some err \<Rightarrow>
          ((zeroJob, Some err),
           \<lparr>known = Map.empty, residual = WritableNodes job, store = s,
            calls = [CheckPermissionCall dataverseKey persistentId]\<rparr>)
      | None \<Rightarrow>
          (case rehashLoop eng dataverseKey persistentId (length nds) nds 0
                  \<lparr>known = getKnownHashes s persistentId, residual = WritableNodes job, store = s,
                   calls = [CheckPermissionCall dataverseKey persistentId]\<rparr> of
             (err, st) \<Rightarrow> ((job\<lparr>WritableNodes := residual st\<rparr>, err), flush persistentId st)))"

section \<open>The worker\<close>

text \<open>\<open>doWork\<close> (dataverse.go, lines 64-89). The goroutine that cancels the context when
  \<open>Stop\<close> fires is the answer \<open>cancelled\<close> of the engine.\<close>

definition doWork :: "engine \<Rightarrow> Job \<Rightarrow> rdb \<Rightarrow> (Job \<times> error option) \<times> wstate" where
  "doWork eng job s =
     (if StreamType job = ''hash-only''
      then doRehash eng (DataverseKey job) (PersistentId job) (WritableNodes job) job s
      else
        (case deserialize eng job of
           Inl err \<Rightarrow>
             ((job, Some err),
              \<lparr>known = Map.empty, residual = WritableNodes job, store = s, calls = []\<rparr>)
         | Inr streams \<Rightarrow>
             (let knownHashes = getKnownHashes s (PersistentId job) in
              case filterRedundant eng job knownHashes of
                (Inl err, cs) \<Rightarrow>
                  ((job, Some err),
                   \<lparr>known = knownHashes, residual = WritableNodes job, store = s, calls = cs\<rparr>)
              | (Inr writableNodes, cs) \<Rightarrow>
                  (case doPersistNodeMap eng streams (job\<lparr>WritableNodes := writableNodes\<rparr>)
                          knownHashes s of
                     (r, st) \<Rightarrow> (r, st\<lparr>calls := cs @ calls st\<rparr>)))))"

text \<open>One turn of the loop of \<open>ProcessJobs\<close> (dataverse.go, lines 453-468), after its
  wait: the store it leaves.\<close>

definition ProcessJobs_turn :: "engine \<Rightarrow> rdb \<Rightarrow> rdb" where
  "ProcessJobs_turn eng s =
     (case popJob s of
        (None, s1) \<Rightarrow> s1
      | (Some job, s1) \<Rightarrow>
          (case doWork eng job s1 of
             ((job', err), st) \<Rightarrow>
               if err = None \<and> length (WritableNodes job') > 0
               then snd (addJob job' False (store st))
               else unlock (PersistentId job) (store st)))"

text \<open>The queue as \<open>addJob\<close> fills it: every job in it has nodes to write.\<close>

definition queue_ok :: "rdb \<Rightarrow> bool" where
  "queue_ok s =
     (case live s ''jobs'' of
        Some (RList js) \<Rightarrow> list_all (\<lambda>j. WritableNodes j \<noteq> []) js
      | _ \<Rightarrow> True)"

text \<open>Two stores that differ at most at the key \<open>key\<close>.\<close>

definition same_but :: "string \<Rightarrow> rdb \<Rightarrow> rdb \<Rightarrow> bool" where
  "same_but key s s' = (clock s' = clock s \<and> (\<forall>k. k \<noteq> key \<longrightarrow> kv s' k = kv s k))"

section \<open>The comparator's local hashes\<close>

text \<open>
  Modelled from the spec: the constants \<open>types.Written\<close> and \<open>types.Deleted\<close> are not
  among the sources; they are the marker values of the specification's section 4.3.
\<close>

definition Written :: string where "Written = ''written''"
definition Deleted :: string where "Deleted = ''deleted''"

definition markerKey :: "string \<Rightarrow> string \<Rightarrow> string" where
  "markerKey persistentId k = persistentId @ '' -> '' @ k"

text \<open>
  The body of the loop of \<open>localRehashToMatchRemoteHashType\<close> (dataverse.go, lines
  495-517) for the node \<open>nd\<close> at the key \<open>k\<close>: the node as it is put into \<open>res\<close>,
  whether it is put into \<open>jobNodes\<close>, and the store.
\<close>

definition localRehashNode ::
  "knownHashes \<Rightarrow> string \<Rightarrow> string \<Rightarrow> node \<Rightarrow> rdb \<Rightarrow> (node \<times> bool) \<times> rdb" where
  "localRehashNode knownHashes persistentId k nd s =
     (let a = Attributes nd in
      if RemoteHashType a \<noteq> [] then
        (let (val0, ok0) =
               (case RemoteHashes (lookupHashes knownHashes (NodeId nd)) (RemoteHashType a) of
                  Some x \<Rightarrow> (x, True)
                | None \<Rightarrow> ([], False));
             (val1, ok1) =
               (if LocalHash a \<noteq> [] \<and>
                   RemoteHashType a = ChecksumType (Checksum (DataFile (Metadata a)))
                then (LocalHash a, True) else (val0, ok0));
             redisKey = markerKey persistentId k;
             redisValue = GetVal s redisKey;
             (val2, ok2) = (if redisValue = Written then (RemoteHash a, True) else (val1, ok1));
             (val3, ok3) = (if redisValue = Deleted then ([], False) else (val2, ok2));
             s' = (if redisValue \<noteq> [] then Del redisKey s else s);
             missed = (\<not> ok3 \<and> LocalHash a \<noteq> []);
             val4 = (if missed then ''?'' else val3)
         in ((nd\<lparr>Attributes := a\<lparr>LocalHash := val4\<rparr>\<rparr>, missed), s'))
      else ((nd, False), s))"

fun localRehashLoop ::
  "knownHashes \<Rightarrow> string \<Rightarrow> nodes \<Rightarrow> nodes \<times> nodes \<Rightarrow> rdb \<Rightarrow> (nodes \<times> nodes) \<times> rdb" where
  "localRehashLoop knownHashes persistentId [] acc s = (acc, s)"
| "localRehashLoop knownHashes persistentId ((k, nd) # rest) (jobNodes, res) s =
     (case localRehashNode knownHashes persistentId k nd s of
        ((nd', missed), s') \<Rightarrow>
          localRehashLoop knownHashes persistentId rest
            (if missed then jobNodes @ [(k, nd)] else jobNodes, res @ [(k, nd')]) s')"

text \<open>
  \<open>localRehashToMatchRemoteHashType\<close> (dataverse.go, lines 490-530). The job it enqueues
  is marked \<open>"hash-only"\<close> in the field \<open>Plugin\<close>, which the \<open>Job\<close> of the sources does
  not have; \<open>doWork\<close> reads the mark in \<open>StreamType\<close>, where the model puts it.
\<close>

definition localRehashToMatchRemoteHashType ::
  "string \<Rightarrow> string \<Rightarrow> nodes \<Rightarrow> bool \<Rightarrow> rdb \<Rightarrow> (nodes \<times> bool) \<times> rdb" where
  "localRehashToMatchRemoteHashType dataverseKey persistentId nds addJobs s =
     (let knownHashes = getKnownHashes s persistentId in
      case localRehashLoop knownHashes persistentId nds ([], []) s of
        ((jobNodes, res), s1) \<Rightarrow>
          (let s2 = (if length jobNodes > 0 \<and> addJobs
                     then snd (AddJob \<lparr>DataverseKey = dataverseKey, PersistentId = persistentId,
                                       WritableNodes = jobNodes, StreamType = ''hash-only'',
                                       Streams = Map.empty, StreamParams = Map.empty\<rparr> s1)
                     else s1)
           in ((res, length jobNodes > 0), s2)))"

section \<open>Example data\<close>

definition empty_store :: rdb where
  "empty_store = \<lparr>clock = 0, kv = Map.empty\<rparr>"

definition example_file :: "string \<Rightarrow> int \<Rightarrow> dataFile" where
  "example_file fname fid =
     \<lparr>FileId = fid, Filename = fname, Filesize = 5, StorageIdentifier = ''file://18c-0a1b2c3d4e5f'',
      Checksum = \<lparr>ChecksumType = ''md5'', ChecksumValue = ''5d41402abc4b2a76b9719d911017c592''\<rparr>\<rparr>"

definition example_node :: "string \<Rightarrow> int \<Rightarrow> action \<Rightarrow> node" where
  "example_node fname fid act =
     \<lparr>NodeId = fname, Name = fname, Path = [], Action = act,
      Attributes = \<lparr>ParentId = [],
        Metadata = \<lparr>DirectoryLabel = [], DataFile = example_file fname fid\<rparr>,
        IsFile = True, LocalHash = ''5d41402abc4b2a76b9719d911017c592'',
        RemoteHash = ''b6fc4c620b67d95f953a5c1c1230aaab5db5a1b0'',
        RemoteHashType = ''gitHash''\<rparr>\<rparr>"

definition example_job :: Job where
  "example_job =
     \<lparr>DataverseKey = ''key'', PersistentId = ''doi:10.5072/FK2/ABC'',
      WritableNodes = [(''a.txt'', example_node ''a.txt'' 0 New)],
      StreamType = ''github'', Streams = Map.empty, StreamParams = Map.empty\<rparr>"

text \<open>
  Stand-ins for the digests in examples: they keep the hashed bytes and prefix them with
  the name of the algorithm, so that, as with MD5 and SHA-1 on the inputs of the
  examples, different inputs have different hashes.
\<close>

definition plain_digests :: crypto where
  "plain_digests =
     \<lparr>md5sum = (\<lambda>B. ''md5:'' @ B), sha1sum = (\<lambda>B. ''sha1:'' @ B),
      sizesum = (\<lambda>n. decimal_nat (unat n))\<rparr>"

definition example_config :: config where
  "example_config =
     \<lparr>DefaultDriver = ''file'', AWSBucket = ''dataverse'', PathToFilesDir = ''/files/'',
      directUpload = ''true'', defaultHash = Md5\<rparr>"

definition good_backend :: backend where
  "good_backend = \<lparr>createErr = None, room = None, closeErr = None, asyncErr = None\<rparr>"

text \<open>An engine whose outside world answers every call with success: the source
  repository streams \<open>"hello"\<close> in two reads, the dataset is empty.\<close>

definition example_engine :: engine where
  "example_engine =
     \<lparr>cfg = example_config, digests = plain_digests,
      backendOf = (\<lambda>t. good_backend),
      stored = (\<lambda>s. \<lparr>openErr = None, script = [(''hello'', None)]\<rparr>),
      permission = (\<lambda>k p. None),
      listing = (\<lambda>p k. Inr []),
      deleteFile = (\<lambda>k i. None),
      addFiles = (\<lambda>k p d. None),
      cleanStorage = (\<lambda>k p. None),
      deserialize = (\<lambda>j. Inr (\<lambda>k. Some \<lparr>openErr = None,
                                             script = [(''hel'', None), (''lo'', Some EOF)]\<rparr>)),
      fileNames = (\<lambda>i. ''18c-0a1b2c3d4e5f''),
      cancelled = (\<lambda>i. False)\<rparr>"

text \<open>A job that deletes the dataset's file \<open>b.txt\<close> (file id 7), and the listing of a
  dataset that still has that file.\<close>

definition delete_job :: Job where
  "delete_job = example_job\<lparr>WritableNodes := [(''b.txt'', example_node ''b.txt'' 7 Delete)]\<rparr>"

definition listing_with_b :: "metadata list" where
  "listing_with_b = [\<lparr>DirectoryLabel = [], DataFile = example_file ''b.txt'' 7\<rparr>]"

text \<open>A file that only the source repository has: no dataset-side record, no local
  hash.\<close>

definition source_only_node :: node where
  "source_only_node =
     \<lparr>NodeId = ''a.txt'', Name = ''a.txt'', Path = [], Action = New,
      Attributes = \<lparr>ParentId = [],
        Metadata = \<lparr>DirectoryLabel = [],
          DataFile = \<lparr>FileId = 0, Filename = ''a.txt'', Filesize = 5, StorageIdentifier = [],
                      Checksum = \<lparr>ChecksumType = [], ChecksumValue = []\<rparr>\<rparr>\<rparr>,
        IsFile = True, LocalHash = [],
        RemoteHash = ''b6fc4c620b67d95f953a5c1c1230aaab5db5a1b0'',
        RemoteHashType = ''gitHash''\<rparr>\<rparr>"

text \<open>A store that holds the marker \<open>written\<close> for \<open>a.txt\<close>.\<close>

definition marked_store :: rdb where
  "marked_store =
     \<lparr>clock = 0, kv = [markerKey ''doi:10.5072/FK2/ABC'' ''a.txt'' \<mapsto> (RStr Written, None)]\<rparr>"


text \<open>The engine of the examples with another stored file: every source holds the stream
  given.\<close>

definition rehash_engine :: "(bytes \<times> error option) list \<Rightarrow> engine" where
  "rehash_engine sc = example_engine\<lparr>stored := (\<lambda>s. \<lparr>openErr = None, script = sc\<rparr>)\<rparr>"

text \<open>A cache entry for \<open>a.txt\<close> that was computed for an earlier content of the file.\<close>

definition stale_hashes :: knownHashes where
  "stale_hashes =
     [''a.txt'' \<mapsto> \<lparr>LocalHashType = ''md5'',
                     LocalHashValue = ''0cc175b9c0f1b6a831c399e269772661'',
                     RemoteHashes = [''gitHash'' \<mapsto> ''2e65efe2a145dda7ee51d1741299f848e5bf752e'',
                                     ''sha1'' \<mapsto> ''86f7e437faa5a7fce15d1ddcb9eaeaea377667b8'']\<rparr>]"

chapter \<open>Properties\<close>

subsection \<open>Properties of splitting at one character\<close>

lemma go_split_no_sep:
  "c \<notin> set s \<Longrightarrow> go_split [c] cur s = [cur @ s]"
  by (induction s arbitrary: cur) auto

lemma go_split_char:
  "go_split [c] cur s =
     (if c \<in> set s
      then (cur @ takeWhile (\<lambda>x. x \<noteq> c) s) # go_split [c] [] (tl (dropWhile (\<lambda>x. x \<noteq> c) s))
      else [cur @ s])"
  by (induction s arbitrary: cur) (auto simp: go_split_no_sep)

lemma length_go_split: "length (go_split [c] cur s) = Suc (count_list s c)"
  by (induction s arbitrary: cur) auto

lemma Join_go_split: "Join (go_split [c] cur s) [c] = cur @ s"
proof (induction "[c]" cur s rule: go_split.induct)
  case (1 cur)
  show ?case by simp
next
  case (2 cur x xs)
  show ?case
  proof (cases "x = c")
    case True
    have "length (go_split [c] [] xs) \<noteq> 0"
      by (simp add: length_go_split)
    then obtain y ys where "go_split [c] [] xs = y # ys"
      by (cases "go_split [c] [] xs") auto
    with True 2 show ?thesis by auto
  next
    case False
    with 2 show ?thesis by simp
  qed
qed

lemma trimProtocol_char:
  "trimProtocol p =
     (if CHR '':'' \<in> set p
      then Inr (tl (dropWhile (\<lambda>x. x \<noteq> CHR '':'') p))
      else Inl (MalformedPersistentId p))"
proof (cases "CHR '':'' \<in> set p")
  case True
  then have "go_split '':'' [] p =
      takeWhile (\<lambda>x. x \<noteq> CHR '':'') p
        # go_split '':'' [] (tl (dropWhile (\<lambda>x. x \<noteq> CHR '':'') p))"
    by (subst go_split_char) simp
  moreover have "\<not> length (Split p '':'') < 2"
    using True by (simp add: Split_def length_go_split count_list_0_iff)
  ultimately show ?thesis
    using True by (simp add: trimProtocol_def Split_def Join_go_split)
next
  case False
  then show ?thesis
    by (simp add: trimProtocol_def Split_def go_split_no_sep)
qed

text \<open>
  Claim C8. For every persistent identifier, \<open>trimProtocol\<close> returns the substring after
  the first \<open>':'\<close>, further \<open>':'\<close> characters preserved; in particular
  \<open>trim "a:b:c" = "b:c"\<close>. An identifier with fewer than two \<open>':'\<close>-separated parts
  (exactly the identifiers with no \<open>':'\<close>, \<open>"x"\<close> among them) fails with the
  malformed-persistent-id error.
\<close>

theorem trimProtocol_law:
  "trimProtocol p =
     (if CHR '':'' \<in> set p
      then Inr (tl (dropWhile (\<lambda>x. x \<noteq> CHR '':'') p))
      else Inl (MalformedPersistentId p))
   \<and> (length (Split p '':'') < 2) = (CHR '':'' \<notin> set p)
   \<and> trimProtocol ''a:b:c'' = Inr ''b:c''
   \<and> trimProtocol ''x'' = Inl (MalformedPersistentId ''x'')"
proof -
  have len: "(length (Split p '':'') < 2) = (CHR '':'' \<notin> set p)"
    by (simp add: Split_def length_go_split count_list_0_iff)
  note general = trimProtocol_char
  have abc: "trimProtocol ''a:b:c'' = Inr ''b:c''"
    by (simp add: general)
  have x: "trimProtocol ''x'' = Inl (MalformedPersistentId ''x'')"
    by (simp add: general)
  from general [of p] len abc x show ?thesis by blast
qed

subsection \<open>Properties of the accumulators\<close>

lemma decimal_val_decimal_nat: "decimal_val (decimal_nat n) = n"
proof (induction n rule: decimal_nat.induct)
  case (1 n)
  show ?case
  proof (cases "n < 10")
    case True
    then show ?thesis
      by (subst decimal_nat.simps) (simp add: decimal_val_def digit_char_def)
  next
    case False
    with 1 have "decimal_val (decimal_nat (n div 10)) = n div 10" by simp
    moreover have "n mod 10 < 10" by simp
    ultimately show ?thesis
      using False
      by (subst decimal_nat.simps) (simp add: decimal_val_def digit_char_def)
  qed
qed

lemma foldl_Write_Sha1:
  "foldl hasher_Write (Sha1Digest fed) chunks = Sha1Digest (fed @ concat chunks)"
  by (induction chunks arbitrary: fed) auto

lemma foldl_Write_Md5:
  "foldl hasher_Write (Md5Digest fed) chunks = Md5Digest (fed @ concat chunks)"
  by (induction chunks arbitrary: fed) auto

lemma foldl_Write_FileSize:
  "foldl hasher_Write (FileSizeHash n) chunks = FileSizeHash (n + of_nat (length (concat chunks)))"
  by (induction chunks arbitrary: n) (auto simp: algebra_simps)

lemma getHash_unsupported:
  "hashType \<notin> {Md5, SHA1, GitHash, FileSize} \<Longrightarrow>
   getHash hashType fileSize = Inl (UnsupportedHash hashType)"
  by (simp add: getHash_def)

text \<open>
  Claim C7. For every byte sequence \<open>B\<close> of length \<open>n\<close>, fed to the accumulator in any
  number of writes, the \<open>gitHash\<close> accumulator produces the SHA-1 of the literal bytes
  \<open>"blob "\<close>, the decimal representation of \<open>n\<close>, a zero byte and \<open>B\<close>, provided the
  size given when the accumulator is created is the number of bytes fed through it.
  (\<open>decimal_nat n\<close> is the decimal representation: \<open>decimal_val_decimal_nat\<close>.)
\<close>

theorem gitHash_law:
  assumes "sint fileSize = int (length B)" and "concat chunks = B"
  shows "\<exists>h. getHash GitHash fileSize = Inr h \<and>
           hasher_Sum c (foldl hasher_Write h chunks)
             = sha1sum c (''blob '' @ decimal_nat (length B) @ [CHR 0x00] @ B)"
proof -
  have kinds: "GitHash \<noteq> Md5" "GitHash \<noteq> SHA1"
    by (simp_all add: GitHash_def Md5_def SHA1_def)
  have "Sprintf_d fileSize = decimal_nat (length B)"
    using assms(1) by (simp add: Sprintf_d_def)
  then have "getHash GitHash fileSize
      = Inr (Sha1Digest (''blob '' @ decimal_nat (length B) @ [CHR 0x00]))"
    using kinds by (simp add: getHash_def)
  then show ?thesis
    using assms(2) by (simp add: foldl_Write_Sha1)
qed

theorem gitHash_law_witness:
  "\<forall>c. \<exists>h. getHash GitHash 5 = Inr h \<and>
      hasher_Sum c (foldl hasher_Write h [''he'', ''llo''])
        = sha1sum c (''blob 5'' @ [CHR 0x00] @ ''hello'')"
proof
  fix c :: crypto
  have size: "sint (5 :: int64) = int (length ''hello'')" by simp
  have cat: "concat [''he'', ''llo''] = ''hello''" by simp
  have "char_of (53 :: nat) = CHR ''5''" by code_simp
  then have dec: "decimal_nat (length ''hello'') = ''5''"
    by (subst decimal_nat.simps) (simp add: digit_char_def)
  from gitHash_law [OF size cat, of c] dec
  show "\<exists>h. getHash GitHash 5 = Inr h \<and>
      hasher_Sum c (foldl hasher_Write h [''he'', ''llo''])
        = sha1sum c (''blob 5'' @ [CHR 0x00] @ ''hello'')"
    by simp
qed

subsection \<open>The per-dataset lock\<close>

lemma lockKey_inj: "(lockKey p = lockKey q) = (p = q)"
  by (simp add: lockKey_def)

lemma lockKey_not_jobs: "lockKey p \<noteq> ''jobs''"
  by (simp add: lockKey_def)

lemma lockKey_not_hashes: "lockKey p \<noteq> hashesKey q"
  by (simp add: lockKey_def hashesKey_def)

lemma LPush_other: "k \<noteq> k' \<Longrightarrow> kv (snd (LPush k x s)) k' = kv s k'"
  by (simp add: LPush_def split: option.splits rvalue.splits)

lemma LPush_clock: "clock (snd (LPush k x s)) = clock s"
  by (simp add: LPush_def split: option.splits rvalue.splits)

lemma RPop_other: "k \<noteq> k' \<Longrightarrow> kv (snd (RPop k s)) k' = kv s k'"
  by (simp add: RPop_def split: option.splits rvalue.splits)

lemma RPop_clock: "clock (snd (RPop k s)) = clock s"
  by (simp add: RPop_def split: option.splits rvalue.splits)

lemma lock_free:
  "live s (lockKey p) = None \<Longrightarrow>
   lock p s = (True, s\<lparr>kv := (kv s)(lockKey p \<mapsto> (RStr ''1'', Some (clock s + lockMaxDuration)))\<rparr>)"
  by (simp add: lock_def SetNX_def)

lemma lock_held: "live s (lockKey p) \<noteq> None \<Longrightarrow> lock p s = (False, s)"
  by (auto simp: lock_def SetNX_def)

lemma AddJob_held:
  "WritableNodes job \<noteq> [] \<Longrightarrow> live s (lockKey (PersistentId job)) \<noteq> None \<Longrightarrow>
   AddJob job s = (Some DatasetBusy, s)"
  by (simp add: AddJob_def addJob_def lock_held)

lemma AddJob_free:
  "WritableNodes job \<noteq> [] \<Longrightarrow> live s (lockKey (PersistentId job)) = None \<Longrightarrow>
   AddJob job s =
     LPush ''jobs'' job
       (s\<lparr>kv := (kv s)(lockKey (PersistentId job) \<mapsto> (RStr ''1'', Some (clock s + lockMaxDuration)))\<rparr>)"
  by (simp add: AddJob_def addJob_def lock_free)

lemma addJob_residual:
  "addJob job False s = (if WritableNodes job = [] then (None, s) else LPush ''jobs'' job s)"
  by (simp add: addJob_def)

text \<open>The lock entry of a dataset, holding until \<open>e\<close>, is kept by every operation that is
  not the \<open>unlock\<close> of that dataset, as long as the clock stays before \<open>e\<close>.\<close>

lemma holds_lock_live: "holds_lock s p e \<Longrightarrow> clock s < e \<Longrightarrow> live s (lockKey p) \<noteq> None"
  by (simp add: holds_lock_def live_def)

lemma addJob_keeps_lock:
  assumes "holds_lock s p e" and "clock s < e"
  shows "holds_lock (snd (addJob job b s)) p e \<and> clock (snd (addJob job b s)) = clock s"
proof (cases "WritableNodes job = [] \<or> \<not> b")
  case True
  then show ?thesis
    using assms(1) lockKey_not_jobs [of p]
    by (auto simp: addJob_def holds_lock_def LPush_other LPush_clock)
next
  case False
  then have ne: "WritableNodes job \<noteq> []" and b: b by auto
  show ?thesis
  proof (cases "PersistentId job = p")
    case True
    with assms have "lock (PersistentId job) s = (False, s)"
      by (simp add: lock_held holds_lock_live)
    with ne b assms(1) show ?thesis by (simp add: addJob_def)
  next
    case False
    obtain r s' where l: "lock (PersistentId job) s = (r, s')"
      by (cases "lock (PersistentId job) s")
    have "kv s' (lockKey p) = kv s (lockKey p) \<and> clock s' = clock s"
      using l False
      by (auto simp: lock_def SetNX_def lockKey_inj split: option.splits)
    then show ?thesis
      using assms(1) ne b l lockKey_not_jobs [of p]
      by (cases r) (auto simp: addJob_def holds_lock_def LPush_other LPush_clock)
  qed
qed

lemma apply_op_keeps_lock:
  assumes "holds_lock s p e" and "clock s + waited [x] < e" and "p \<notin> set (unlocked [x])"
  shows "holds_lock (apply_op x s) p e \<and> clock (apply_op x s) = clock s + waited [x]"
proof (cases x)
  case (Wait d)
  with assms show ?thesis by (simp add: advance_def holds_lock_def)
next
  case Pop
  with assms lockKey_not_jobs [of p] show ?thesis
    by (simp add: popJob_def holds_lock_def split: prod.splits sum.splits)
       (metis RPop_other RPop_clock snd_conv)
next
  case (Requeue job)
  with assms addJob_keeps_lock [of s p e job False] show ?thesis by simp
next
  case (Store q known)
  with assms lockKey_not_hashes [of p q] show ?thesis
    by (auto simp: storeKnownHashes_def Set_key_def holds_lock_def)
next
  case (Enqueue job)
  with assms addJob_keeps_lock [of s p e job True] show ?thesis
    by (simp add: AddJob_def)
next
  case (Unlock q)
  with assms show ?thesis
    by (auto simp: unlock_def Del_def holds_lock_def lockKey_inj)
qed

lemma waited_Cons: "waited (x # xs) = waited [x] + waited xs"
  by (cases x) simp_all

lemma unlocked_Cons: "set (unlocked (x # xs)) = set (unlocked [x]) \<union> set (unlocked xs)"
  by (cases x) simp_all

lemma run_ops_keeps_lock:
  "holds_lock s p e \<Longrightarrow> clock s + waited ops < e \<Longrightarrow> p \<notin> set (unlocked ops) \<Longrightarrow>
   holds_lock (run_ops ops s) p e \<and> clock (run_ops ops s) = clock s + waited ops"
proof (induction ops arbitrary: s)
  case Nil
  then show ?case by simp
next
  case (Cons x xs)
  have w: "waited (x # xs) = waited [x] + waited xs" by (rule waited_Cons)
  have u: "p \<notin> set (unlocked [x])" "p \<notin> set (unlocked xs)"
    using Cons.prems(3) unlocked_Cons [of x xs] by auto
  have step: "holds_lock (apply_op x s) p e \<and> clock (apply_op x s) = clock s + waited [x]"
    using Cons.prems(1,2) u(1) w by (intro apply_op_keeps_lock) auto
  then have "holds_lock (run_ops xs (apply_op x s)) p e \<and>
      clock (run_ops xs (apply_op x s)) = clock (apply_op x s) + waited xs"
    using Cons.prems(2) u(2) w by (intro Cons.IH) auto
  with step w show ?case by simp
qed

text \<open>
  Claim C2, as amended. A public enqueue (\<open>AddJob\<close>) of a job with non-empty \<open>writableNodes\<close>
  acquires the lock of the job's dataset by set-if-absent with a 24-hour expiry when the
  lock is free, and then pushes the job; it fails with the dataset-busy error, the store
  unchanged, when the lock is held. A residual re-enqueue (\<open>addJob job false\<close>) pushes
  the job without reading or writing the lock. Hence, once a public enqueue for a
  dataset has succeeded, a public enqueue of a second job with non-empty
  \<open>writableNodes\<close> for the same dataset fails with the dataset-busy error after any
  sequence \<open>ops\<close> of store operations that does not unlock that dataset (the worker
  unlocks it when the first job has completed or failed) and takes less than the 24
  hours of the lock.
\<close>

theorem dataset_lock:
  assumes "WritableNodes job \<noteq> []"
  shows "(live s (lockKey (PersistentId job)) = None \<longrightarrow>
            AddJob job s =
              LPush ''jobs'' job
                (s\<lparr>kv := (kv s)(lockKey (PersistentId job)
                        \<mapsto> (RStr ''1'', Some (clock s + 24 * 3600)))\<rparr>))
       \<and> (live s (lockKey (PersistentId job)) \<noteq> None \<longrightarrow>
            AddJob job s = (Some DatasetBusy, s))
       \<and> addJob job False s = LPush ''jobs'' job s
       \<and> kv (snd (addJob job False s)) (lockKey p) = kv s (lockKey p)
       \<and> (AddJob job s = (None, s1) \<and> WritableNodes job2 \<noteq> [] \<and>
            PersistentId job2 = PersistentId job \<and>
            PersistentId job \<notin> set (unlocked ops) \<and> waited ops < 24 * 3600 \<longrightarrow>
            fst (AddJob job2 (run_ops ops s1)) = Some DatasetBusy)"
proof (intro conjI impI)
  assume "live s (lockKey (PersistentId job)) = None"
  then show "AddJob job s =
      LPush ''jobs'' job
        (s\<lparr>kv := (kv s)(lockKey (PersistentId job) \<mapsto> (RStr ''1'', Some (clock s + 24 * 3600)))\<rparr>)"
    using assms AddJob_free [of job s] by (simp add: lockMaxDuration_def)
next
  assume "live s (lockKey (PersistentId job)) \<noteq> None"
  then show "AddJob job s = (Some DatasetBusy, s)"
    using assms by (rule AddJob_held [rotated])
next
  show "addJob job False s = LPush ''jobs'' job s"
    using assms by (simp add: addJob_residual)
next
  show "kv (snd (addJob job False s)) (lockKey p) = kv s (lockKey p)"
    using lockKey_not_jobs [of p] by (simp add: addJob_residual LPush_other)
next
  assume a: "AddJob job s = (None, s1) \<and> WritableNodes job2 \<noteq> [] \<and>
      PersistentId job2 = PersistentId job \<and>
      PersistentId job \<notin> set (unlocked ops) \<and> waited ops < 24 * 3600"
  let ?p = "PersistentId job"
  let ?e = "clock s + lockMaxDuration"
  have free: "live s (lockKey ?p) = None"
  proof (rule ccontr)
    assume "live s (lockKey ?p) \<noteq> None"
    with assms have "AddJob job s = (Some DatasetBusy, s)" by (simp add: AddJob_held)
    with a show False by simp
  qed
  let ?s0 = "s\<lparr>kv := (kv s)(lockKey ?p \<mapsto> (RStr ''1'', Some ?e))\<rparr>"
  have s1: "s1 = snd (LPush ''jobs'' job ?s0)"
    using a AddJob_free [OF assms free] by simp
  have h1: "holds_lock s1 ?p ?e \<and> clock s1 = clock s"
    using lockKey_not_jobs [of ?p]
    by (simp add: s1 holds_lock_def LPush_other LPush_clock)
  have "holds_lock (run_ops ops s1) ?p ?e \<and> clock (run_ops ops s1) = clock s1 + waited ops"
    using h1 a by (intro run_ops_keeps_lock) (auto simp: lockMaxDuration_def)
  then have "live (run_ops ops s1) (lockKey (PersistentId job2)) \<noteq> None"
    using h1 a by (intro holds_lock_live [where e = ?e]) (auto simp: lockMaxDuration_def)
  with a show "fst (AddJob job2 (run_ops ops s1)) = Some DatasetBusy"
    by (simp add: AddJob_held)
qed

theorem dataset_lock_witness:
  "WritableNodes example_job \<noteq> []
   \<and> fst (AddJob example_job empty_store) = None
   \<and> fst (AddJob example_job
          (run_ops [Pop, Wait 3600, Requeue example_job, Unlock ''doi:10.5072/FK2/XYZ'']
             (snd (AddJob example_job empty_store)))) = Some DatasetBusy"
proof -
  have ne: "WritableNodes example_job \<noteq> []"
    by (simp add: example_job_def)
  have free: "live empty_store (lockKey (PersistentId example_job)) = None"
    by (simp add: live_def empty_store_def)
  have ok: "AddJob example_job empty_store = (None, snd (AddJob example_job empty_store))"
    using ne free
    by (simp add: AddJob_free LPush_def live_def empty_store_def lockKey_def)
  have hyps: "PersistentId example_job
        \<notin> set (unlocked [Pop, Wait 3600, Requeue example_job, Unlock ''doi:10.5072/FK2/XYZ''])"
      "waited [Pop, Wait 3600, Requeue example_job, Unlock ''doi:10.5072/FK2/XYZ''] < 24 * 3600"
    by (simp_all add: example_job_def)
  from dataset_lock [OF ne, of empty_store p "snd (AddJob example_job empty_store)" example_job
      "[Pop, Wait 3600, Requeue example_job, Unlock ''doi:10.5072/FK2/XYZ'']"]
  have "fst (AddJob example_job
          (run_ops [Pop, Wait 3600, Requeue example_job, Unlock ''doi:10.5072/FK2/XYZ'']
             (snd (AddJob example_job empty_store)))) = Some DatasetBusy"
    using ok ne hyps by blast
  moreover have "fst (AddJob example_job empty_store) = None"
    using ok by (metis fst_conv)
  ultimately show ?thesis using ne by blast
qed

lemma queued_example:
  "snd (AddJob example_job empty_store)
     = \<lparr>clock = 0,
        kv = [lockKey ''doi:10.5072/FK2/ABC'' \<mapsto> (RStr ''1'', Some (24 * 3600)),
              ''jobs'' \<mapsto> (RList [example_job], None)]\<rparr>"
proof -
  have ne: "WritableNodes example_job \<noteq> []" by (simp add: example_job_def)
  have free: "live empty_store (lockKey (PersistentId example_job)) = None"
    by (simp add: live_def empty_store_def)
  have pid: "PersistentId example_job = ''doi:10.5072/FK2/ABC''"
    by (simp add: example_job_def)
  have "AddJob example_job empty_store =
      LPush ''jobs'' example_job
       (empty_store\<lparr>kv := (kv empty_store)(lockKey (PersistentId example_job)
            \<mapsto> (RStr ''1'', Some (clock empty_store + lockMaxDuration)))\<rparr>)"
    using ne free by (rule AddJob_free)
  then show ?thesis
    using lockKey_not_jobs [of "''doi:10.5072/FK2/ABC''"]
    by (simp add: pid LPush_def live_def empty_store_def lockMaxDuration_def)
qed

text \<open>
  Claim C2 as stated does not hold: the lock is a key with a 24-hour expiry
  (\<open>SetNX\<close> with \<open>lockMaxDuration\<close>), so a first job that is still in the queue, never
  taken by a worker and never unlocked, no longer excludes a second public enqueue for
  the same dataset once 24 hours have passed: the second enqueue succeeds and both jobs
  are in the queue.
\<close>

theorem dataset_lock_counterexample:
  "WritableNodes example_job \<noteq> []
   \<and> fst (AddJob example_job empty_store) = None
   \<and> unlocked [Wait (24 * 3600)] = []
   \<and> live (run_ops [Wait (24 * 3600)] (snd (AddJob example_job empty_store))) ''jobs''
        = Some (RList [example_job])
   \<and> fst (AddJob example_job
          (run_ops [Wait (24 * 3600)] (snd (AddJob example_job empty_store)))) = None
   \<and> live (snd (AddJob example_job
          (run_ops [Wait (24 * 3600)] (snd (AddJob example_job empty_store))))) ''jobs''
        = Some (RList [example_job, example_job])"
proof -
  have ne: "WritableNodes example_job \<noteq> []"
    by (simp add: example_job_def)
  have pid: "PersistentId example_job = ''doi:10.5072/FK2/ABC''"
    by (simp add: example_job_def)
  have free: "live empty_store (lockKey (PersistentId example_job)) = None"
    by (simp add: live_def empty_store_def)
  have first: "fst (AddJob example_job empty_store) = None"
    using ne free by (simp add: AddJob_free LPush_def live_def empty_store_def lockKey_def)
  let ?s = "run_ops [Wait (24 * 3600)] (snd (AddJob example_job empty_store))"
  let ?t = "\<lparr>clock = 24 * 3600,
        kv = [lockKey ''doi:10.5072/FK2/ABC'' \<mapsto> (RStr ''1'', Some (24 * 3600)),
              ''jobs'' \<mapsto> (RList [example_job], None)]\<rparr>"
  have s: "?s = ?t"
    by (simp add: queued_example advance_def)
  have expired: "live ?t (lockKey (PersistentId example_job)) = None"
    using lockKey_not_jobs [of "''doi:10.5072/FK2/ABC''"]
    by (simp add: pid live_def)
  have queue: "live ?s ''jobs'' = Some (RList [example_job])"
    unfolding s using lockKey_not_jobs [of "''doi:10.5072/FK2/ABC''"]
    by (simp add: live_def)
  have second: "AddJob example_job ?t =
      LPush ''jobs'' example_job
       (?t\<lparr>kv := (kv ?t)(lockKey (PersistentId example_job)
            \<mapsto> (RStr ''1'', Some (clock ?t + lockMaxDuration)))\<rparr>)"
    using ne expired by (rule AddJob_free)
  have second_ok: "fst (AddJob example_job ?s) = None"
    unfolding s second using lockKey_not_jobs [of "''doi:10.5072/FK2/ABC''"]
    by (simp add: pid LPush_def live_def)
  have both: "live (snd (AddJob example_job ?s)) ''jobs''
      = Some (RList [example_job, example_job])"
    unfolding s second using lockKey_not_jobs [of "''doi:10.5072/FK2/ABC''"]
    by (simp add: pid LPush_def live_def)
  show ?thesis
    using ne first queue second_ok both by simp
qed
subsection \<open>The hashing stream and the writer\<close>

lemma hasher_Write_Nil: "hasher_Write h [] = h"
  by (cases h) simp_all

lemma hasher_Write_append: "hasher_Write (hasher_Write h a) b = hasher_Write h (a @ b)"
  by (cases h) (simp_all add: algebra_simps)

lemma Read3:
  "Read (HashingReader (HashingReader (HashingReader (Source (x # xs)) TheHasher) TheSizeHasher) TheRemoteHasher) hs =
     (x, HashingReader (HashingReader (HashingReader (Source xs) TheHasher) TheSizeHasher) TheRemoteHasher,
      hs(TheHasher := hasher_Write (hs TheHasher) (fst x), TheSizeHasher := hasher_Write (hs TheSizeHasher) (fst x),
         TheRemoteHasher := hasher_Write (hs TheRemoteHasher) (fst x)))"
  by (cases x) simp

lemma sink_Write_ok: "sink_Write f b = (None, f1) \<Longrightarrow> sunk f1 = sunk f @ b"
  by (auto simp: sink_Write_def split: option.splits if_splits)

text \<open>A copy that succeeds through the three stacked hashing readers has delivered to
  the sink the bytes of the first \<open>k\<close> reads, in order, and has written exactly these
  bytes to each of the three hashers.\<close>

lemma Copy3:
  "Copy f (HashingReader (HashingReader (HashingReader (Source xs) TheHasher) TheSizeHasher) TheRemoteHasher) hs = (None, f', r', hs')
   \<Longrightarrow> \<exists>k. sunk f' = sunk f @ concat (map fst (take k xs))
         \<and> hs' TheHasher = hasher_Write (hs TheHasher) (concat (map fst (take k xs)))
         \<and> hs' TheSizeHasher = hasher_Write (hs TheSizeHasher) (concat (map fst (take k xs)))
         \<and> hs' TheRemoteHasher = hasher_Write (hs TheRemoteHasher) (concat (map fst (take k xs)))"
proof (induction xs arbitrary: f hs)
  case Nil
  then have "f' = f" and "hs' = hs(TheHasher := hasher_Write (hs TheHasher) [], TheSizeHasher := hasher_Write (hs TheSizeHasher) [],
      TheRemoteHasher := hasher_Write (hs TheRemoteHasher) [])"
    by (simp_all add: Copy.simps [of f])
  then show ?case by (simp add: hasher_Write_Nil)
next
  case (Cons x xs)
  obtain b e where x: "x = (b, e)" by (cases x)
  let ?hs = "hs(TheHasher := hasher_Write (hs TheHasher) b, TheSizeHasher := hasher_Write (hs TheSizeHasher) b, TheRemoteHasher := hasher_Write (hs TheRemoteHasher) b)"
  let ?R = "HashingReader (HashingReader (HashingReader (Source xs) TheHasher) TheSizeHasher) TheRemoteHasher"
  obtain ew f1 where w: "(if b \<noteq> [] then sink_Write f b else (None, f)) = (ew, f1)"
    by (cases "if b \<noteq> [] then sink_Write f b else (None, f)")
  have unfold: "Copy f (HashingReader (HashingReader (HashingReader (Source (x # xs)) TheHasher) TheSizeHasher) TheRemoteHasher) hs =
      (case ew of Some err \<Rightarrow> (Some err, f1, ?R, ?hs)
       | None \<Rightarrow> (case e of Some err \<Rightarrow> (if err = EOF then None else Some err, f1, ?R, ?hs)
                   | None \<Rightarrow> Copy f1 ?R ?hs))"
    using w by (subst Copy.simps) (simp add: Read3 x del: Read.simps)
  from Cons.prems unfold have ew: "ew = None" by (cases ew) auto
  with w have f1: "sunk f1 = sunk f @ b"
    by (cases "b = []") (auto dest: sink_Write_ok)
  show ?case
  proof (cases e)
    case None
    with Cons.prems unfold ew have "Copy f1 ?R ?hs = (None, f', r', hs')" by simp
    from Cons.IH [OF this] obtain k where
      "sunk f' = sunk f1 @ concat (map fst (take k xs))"
      "hs' TheHasher = hasher_Write (?hs TheHasher) (concat (map fst (take k xs)))"
      "hs' TheSizeHasher = hasher_Write (?hs TheSizeHasher) (concat (map fst (take k xs)))"
      "hs' TheRemoteHasher = hasher_Write (?hs TheRemoteHasher) (concat (map fst (take k xs)))"
      by blast
    then show ?thesis
      using f1 x by (intro exI [of _ "Suc k"]) (simp add: hasher_Write_append)
  next
    case (Some err)
    with Cons.prems unfold ew have "f' = f1" and "hs' = ?hs"
      by (auto split: if_splits)
    then show ?thesis
      using f1 x by (intro exI [of _ "Suc 0"]) simp
  qed
qed

lemma kinds_distinct:
  "Md5 \<noteq> SHA1" "Md5 \<noteq> GitHash" "Md5 \<noteq> FileSize" "SHA1 \<noteq> GitHash" "SHA1 \<noteq> FileSize"
  "GitHash \<noteq> FileSize"
  by (simp_all add: Md5_def SHA1_def GitHash_def FileSize_def)

text \<open>The sum of a fresh accumulator after the bytes \<open>B\<close> is the specification's hash of
  \<open>B\<close>; for \<open>gitHash\<close>, when the size given at creation is the length of \<open>B\<close>.\<close>

lemma getHash_spec_hash:
  assumes "getHash kind fileSize = Inr h0"
    and "kind \<noteq> GitHash \<or> sint fileSize = int (length B)"
  shows "hasher_Sum c (hasher_Write h0 B) = spec_hash c kind B"
proof -
  consider "kind = Md5" | "kind = SHA1" | "kind = GitHash" | "kind = FileSize"
    using assms(1) by (auto simp: getHash_def split: if_splits)
  then show ?thesis
  proof cases
    case 1
    with assms(1) show ?thesis by (auto simp: getHash_def spec_hash_def)
  next
    case 2
    with assms(1) kinds_distinct show ?thesis by (auto simp: getHash_def spec_hash_def)
  next
    case 3
    with assms(2) have "Sprintf_d fileSize = decimal_nat (length B)"
      by (simp add: Sprintf_d_def)
    with 3 assms(1) kinds_distinct show ?thesis by (auto simp: getHash_def spec_hash_def)
  next
    case 4
    with assms(1) kinds_distinct show ?thesis by (auto simp: getHash_def spec_hash_def)
  qed
qed

lemma sint_count: "m < 2 ^ 63 \<Longrightarrow> sint (of_nat m :: int64) = int m"
  by (simp add: signed_of_nat signed_take_bit_int_eq_self)

lemma write_stream_copy:
  assumes "write_stream eng key fs si pid hashType remoteHashType ident fileSize = (Inr (h, rh, n), d)"
  shows "\<exists>h0 r0 t f' r' hs'.
            getHash hashType fileSize = Inr h0 \<and> getHash remoteHashType fileSize = Inr r0 \<and>
            Copy (open_sink (backendOf eng t))
                 (HashingReader (HashingReader (HashingReader (Source (script fs))
                     TheHasher) TheSizeHasher) TheRemoteHasher)
                 (\<lambda>i. case i of TheHasher \<Rightarrow> h0 | TheSizeHasher \<Rightarrow> FileSizeHash 0
                      | TheRemoteHasher \<Rightarrow> r0) = (None, f', r', hs') \<and>
            d = Some (t, sunk f') \<and>
            h = hasher_Sum (digests eng) (hs' TheHasher) \<and>
            rh = hasher_Sum (digests eng) (hs' TheRemoteHasher) \<and>
            n = FileSize_of (hs' TheSizeHasher)"
proof -
  obtain p where p: "trimProtocol pid = Inr p"
    using assms by (cases "trimProtocol pid") (simp_all add: write_stream_def)
  obtain h0 where h0: "getHash hashType fileSize = Inr h0"
    using assms p by (cases "getHash hashType fileSize") (simp_all add: write_stream_def)
  obtain r0 where r0: "getHash remoteHashType fileSize = Inr r0"
    using assms p h0 by (cases "getHash remoteHashType fileSize") (simp_all add: write_stream_def)
  have op: "openErr fs = None"
    using assms p h0 r0 by (cases "openErr fs") (simp_all add: write_stream_def)
  let ?R = "HashingReader (HashingReader (HashingReader (Source (script fs))
                     TheHasher) TheSizeHasher) TheRemoteHasher"
  let ?hs = "\<lambda>i. case i of TheHasher \<Rightarrow> h0 | TheSizeHasher \<Rightarrow> FileSizeHash 0
                      | TheRemoteHasher \<Rightarrow> r0"
  have "\<exists>t f' r' hs'. Copy (open_sink (backendOf eng t)) ?R ?hs = (None, f', r', hs') \<and>
          d = Some (t, sunk f') \<and>
          h = hasher_Sum (digests eng) (hs' TheHasher) \<and>
          rh = hasher_Sum (digests eng) (hs' TheRemoteHasher) \<and>
          n = FileSize_of (hs' TheSizeHasher)"
  proof (cases "driver (getStorage si) = ''file'' \<or> DefaultDriver (cfg eng) = []
      \<or> directUpload (cfg eng) \<noteq> ''true''")
    case True
    then obtain t f where g: "getFile eng pid p (getStorage si) ident = Inr (t, f)"
      using assms p h0 r0 op
      by (cases "getFile eng pid p (getStorage si) ident")
         (auto simp: write_stream_def Let_def)
    then have f: "f = open_sink (backendOf eng t)"
      by (auto simp: getFile_def Let_def split: option.splits)
    obtain e f' r' hs' where c: "Copy (open_sink (backendOf eng t)) ?R ?hs = (e, f', r', hs')"
      by (cases "Copy (open_sink (backendOf eng t)) ?R ?hs")
    have "e = None \<and> d = Some (t, sunk f') \<and>
          h = hasher_Sum (digests eng) (hs' TheHasher) \<and>
          rh = hasher_Sum (digests eng) (hs' TheRemoteHasher) \<and>
          n = FileSize_of (hs' TheSizeHasher)"
      using assms p h0 r0 op True g f c
      by (simp add: write_stream_def Let_def split: if_splits)
    with c show ?thesis by blast
  next
    case False
    then have s3: "driver (getStorage si) = ''s3''"
      using assms p h0 r0 op by (auto simp: write_stream_def Let_def split: if_splits)
    let ?t = "S3Object (bucket (getStorage si)) (p @ ''/'' @ sfilename (getStorage si))"
    obtain e f' r' hs' where c: "Copy (open_sink (backendOf eng ?t)) ?R ?hs = (e, f', r', hs')"
      by (cases "Copy (open_sink (backendOf eng ?t)) ?R ?hs")
    have "e = None \<and> d = Some (?t, sunk f') \<and>
          h = hasher_Sum (digests eng) (hs' TheHasher) \<and>
          rh = hasher_Sum (digests eng) (hs' TheRemoteHasher) \<and>
          n = FileSize_of (hs' TheSizeHasher)"
      using assms p h0 r0 op False s3 c
      by (simp add: write_stream_def Let_def split: option.splits)
    with c show ?thesis by blast
  qed
  with h0 r0 show ?thesis by blast
qed

lemma open_sink_sunk: "sunk (open_sink b) = []"
  by (simp add: open_sink_def)

text \<open>
  Claim C4, as amended. For every successful write of a file stream there is one sequence
  of bytes \<open>B\<close>, the bytes of the first \<open>k\<close> reads of the source in order, such that the
  storage sink has received exactly \<open>B\<close> and each of the three results is computed from
  \<open>B\<close>: the local digest is the sum of the local-kind accumulator after \<open>B\<close>, the remote
  digest the sum of the remote-kind accumulator after \<open>B\<close>, and the size the 64-bit count
  of \<open>B\<close> (the number of bytes, below \<open>2^63\<close>). Each digest is the specification's hash
  of \<open>B\<close> for its kind, provided that for the kind \<open>gitHash\<close> the \<open>fileSize\<close> passed to the
  write is the number of bytes of \<open>B\<close>.
\<close>

theorem write_single_pass:
  assumes "write_stream eng key fs si pid hashType remoteHashType ident fileSize
             = (Inr (h, rh, n), d)"
  shows "\<exists>t k h0 r0.
           d = Some (t, concat (map fst (take k (script fs))))
         \<and> getHash hashType fileSize = Inr h0
         \<and> getHash remoteHashType fileSize = Inr r0
         \<and> h = hasher_Sum (digests eng) (hasher_Write h0 (concat (map fst (take k (script fs)))))
         \<and> rh = hasher_Sum (digests eng) (hasher_Write r0 (concat (map fst (take k (script fs)))))
         \<and> n = of_nat (length (concat (map fst (take k (script fs)))))
         \<and> (hashType \<noteq> GitHash
               \<or> sint fileSize = int (length (concat (map fst (take k (script fs)))))
             \<longrightarrow> h = spec_hash (digests eng) hashType (concat (map fst (take k (script fs)))))
         \<and> (remoteHashType \<noteq> GitHash
               \<or> sint fileSize = int (length (concat (map fst (take k (script fs)))))
             \<longrightarrow> rh = spec_hash (digests eng) remoteHashType
                       (concat (map fst (take k (script fs)))))
         \<and> (length (concat (map fst (take k (script fs)))) < 2 ^ 63
             \<longrightarrow> sint n = int (length (concat (map fst (take k (script fs))))))"
proof -
  let ?R = "HashingReader (HashingReader (HashingReader (Source (script fs))
                     TheHasher) TheSizeHasher) TheRemoteHasher"
  from write_stream_copy [OF assms] obtain h0 r0 t f' r' hs' where
    h0: "getHash hashType fileSize = Inr h0" and r0: "getHash remoteHashType fileSize = Inr r0"
    and c: "Copy (open_sink (backendOf eng t)) ?R
              (\<lambda>i. case i of TheHasher \<Rightarrow> h0 | TheSizeHasher \<Rightarrow> FileSizeHash 0
                      | TheRemoteHasher \<Rightarrow> r0) = (None, f', r', hs')"
    and d: "d = Some (t, sunk f')"
    and h: "h = hasher_Sum (digests eng) (hs' TheHasher)"
    and rh: "rh = hasher_Sum (digests eng) (hs' TheRemoteHasher)"
    and n: "n = FileSize_of (hs' TheSizeHasher)"
    by blast
  from Copy3 [OF c] obtain k where
    k: "sunk f' = concat (map fst (take k (script fs)))"
      "hs' TheHasher = hasher_Write h0 (concat (map fst (take k (script fs))))"
      "hs' TheSizeHasher = hasher_Write (FileSizeHash 0) (concat (map fst (take k (script fs))))"
      "hs' TheRemoteHasher = hasher_Write r0 (concat (map fst (take k (script fs))))"
    by (auto simp: open_sink_sunk)
  let ?B = "concat (map fst (take k (script fs)))"
  have 1: "d = Some (t, ?B)" using d k by simp
  have 2: "h = hasher_Sum (digests eng) (hasher_Write h0 ?B)" using h k by simp
  have 3: "rh = hasher_Sum (digests eng) (hasher_Write r0 ?B)" using rh k by simp
  have 4: "n = of_nat (length ?B)" using n k by simp
  have 5: "hashType \<noteq> GitHash \<or> sint fileSize = int (length ?B)
      \<longrightarrow> h = spec_hash (digests eng) hashType ?B"
    using 2 getHash_spec_hash [OF h0] by blast
  have 6: "remoteHashType \<noteq> GitHash \<or> sint fileSize = int (length ?B)
      \<longrightarrow> rh = spec_hash (digests eng) remoteHashType ?B"
    using 3 getHash_spec_hash [OF r0] by blast
  have 7: "length ?B < 2 ^ 63 \<longrightarrow> sint n = int (length ?B)"
    using 4 by (simp add: sint_count)
  from 1 h0 r0 2 3 4 5 6 7 show ?thesis by blast
qed


lemma decimal_nat_1: "decimal_nat (Suc 0) = ''1''"
proof -
  have "char_of (49 :: nat) = CHR ''1''" by code_simp
  then show ?thesis by (subst decimal_nat.simps) (simp add: digit_char_def)
qed

lemma decimal_nat_0: "decimal_nat 0 = ''0''"
proof -
  have "char_of (48 :: nat) = CHR ''0''" by code_simp
  then show ?thesis by (subst decimal_nat.simps) (simp add: digit_char_def)
qed

lemma decimal_nat_5: "decimal_nat 5 = ''5''"
proof -
  have "char_of (53 :: nat) = CHR ''5''" by code_simp
  then show ?thesis by (subst decimal_nat.simps) (simp add: digit_char_def)
qed

lemma trimProtocol_example: "trimProtocol ''doi:10.5072/FK2/ABC'' = Inr ''10.5072/FK2/ABC''"
  by (simp add: trimProtocol_char)

lemmas kind_defs = Md5_def SHA1_def GitHash_def FileSize_def

lemma write_stream_size_mismatch:
  "write_stream example_engine ''key'' \<lparr>openErr = None, script = [(''a'', None)]\<rparr>
      ''file://f1'' ''doi:10.5072/FK2/ABC'' Md5 GitHash ''a.txt'' 0
   = (Inr (''md5:a'', ''sha1:blob 0'' @ [CHR 0x00] @ ''a'', 1),
      Some (LocalFile ''/files/10.5072/FK2/ABC/f1'', ''a''))"
  by (simp add: write_stream_def trimProtocol_example getStorage_def Split_def getHash_def
      kind_defs Sprintf_d_def decimal_nat_0 getFile_def open_sink_def Copy.simps
      sink_Write_def example_engine_def example_config_def plain_digests_def good_backend_def
      Let_def)

text \<open>
  Claim C4 as stated fails: a write with remote kind \<open>gitHash\<close> and \<open>fileSize = 0\<close> of a
  stream that delivers the one byte \<open>"a"\<close> succeeds, and its remote digest is the SHA-1 of
  \<open>"blob 0\\0a"\<close>, not the \<open>gitHash\<close> of the delivered byte, the SHA-1 of \<open>"blob 1\\0a"\<close>.
  (The digests of \<open>example_engine\<close> prefix the hashed bytes with the name of the
  algorithm, so that hashes of different inputs differ, as these two SHA-1 values do.)
\<close>

theorem write_single_pass_counterexample:
  "fst (write_stream example_engine ''key'' \<lparr>openErr = None, script = [(''a'', None)]\<rparr>
      ''file://f1'' ''doi:10.5072/FK2/ABC'' Md5 GitHash ''a.txt'' 0)
     = Inr (''md5:a'', ''sha1:blob 0'' @ [CHR 0x00] @ ''a'', 1)
   \<and> snd (write_stream example_engine ''key'' \<lparr>openErr = None, script = [(''a'', None)]\<rparr>
      ''file://f1'' ''doi:10.5072/FK2/ABC'' Md5 GitHash ''a.txt'' 0)
     = Some (LocalFile ''/files/10.5072/FK2/ABC/f1'', ''a'')
   \<and> spec_hash (digests example_engine) GitHash ''a'' = ''sha1:blob 1'' @ [CHR 0x00] @ ''a''
   \<and> ''sha1:blob 0'' @ [CHR 0x00] @ ''a'' \<noteq> spec_hash (digests example_engine) GitHash ''a''"
proof -
  have "spec_hash (digests example_engine) GitHash ''a'' = ''sha1:blob 1'' @ [CHR 0x00] @ ''a''"
    by (simp add: spec_hash_def kind_defs decimal_nat_1 example_engine_def plain_digests_def)
  then show ?thesis
    by (simp add: write_stream_size_mismatch)
qed

lemma write_stream_hello:
  "write_stream example_engine ''key''
      \<lparr>openErr = None, script = [(''hel'', None), (''lo'', Some EOF)]\<rparr>
      ''file://f1'' ''doi:10.5072/FK2/ABC'' Md5 GitHash ''a.txt'' 5
   = (Inr (''md5:hello'', ''sha1:blob 5'' @ [CHR 0x00] @ ''hello'', 5),
      Some (LocalFile ''/files/10.5072/FK2/ABC/f1'', ''hello''))"
  by (simp add: write_stream_def trimProtocol_example getStorage_def Split_def getHash_def
      kind_defs Sprintf_d_def decimal_nat_5 getFile_def open_sink_def Copy.simps
      sink_Write_def example_engine_def example_config_def plain_digests_def good_backend_def
      Let_def)

theorem write_single_pass_witness:
  "\<exists>h rh n t.
      write_stream example_engine ''key''
        \<lparr>openErr = None, script = [(''hel'', None), (''lo'', Some EOF)]\<rparr>
        ''file://f1'' ''doi:10.5072/FK2/ABC'' Md5 GitHash ''a.txt'' 5
        = (Inr (h, rh, n), Some (t, ''hello''))
    \<and> h = spec_hash (digests example_engine) Md5 ''hello''
    \<and> rh = spec_hash (digests example_engine) GitHash ''hello''
    \<and> sint n = 5"
proof -
  let ?fs = "\<lparr>openErr = None, script = [(''hel'', None), (''lo'', Some EOF)]\<rparr>"
  from write_single_pass [OF write_stream_hello]
  obtain t k where
    d: "Some (LocalFile ''/files/10.5072/FK2/ABC/f1'', ''hello'')
          = Some (t, concat (map fst (take k (script ?fs))))"
    and h: "Md5 \<noteq> GitHash \<or> sint (5 :: int64) = int (length (concat (map fst (take k (script ?fs)))))
        \<longrightarrow> ''md5:hello'' = spec_hash (digests example_engine) Md5
              (concat (map fst (take k (script ?fs))))"
    and rh: "GitHash \<noteq> GitHash \<or> sint (5 :: int64) = int (length (concat (map fst (take k (script ?fs)))))
        \<longrightarrow> ''sha1:blob 5'' @ [CHR 0x00] @ ''hello'' = spec_hash (digests example_engine) GitHash
              (concat (map fst (take k (script ?fs))))"
    and n: "length (concat (map fst (take k (script ?fs)))) < 2 ^ 63
        \<longrightarrow> sint (5 :: int64) = int (length (concat (map fst (take k (script ?fs)))))"
    by blast
  from d have B: "concat (map fst (take k (script ?fs))) = ''hello''" by simp
  have "''md5:hello'' = spec_hash (digests example_engine) Md5 ''hello''"
    using h unfolding B by (simp add: kind_defs)
  moreover have "''sha1:blob 5'' @ [CHR 0x00] @ ''hello''
      = spec_hash (digests example_engine) GitHash ''hello''"
    using rh unfolding B by simp
  moreover have "sint (5 :: int64) = 5" by simp
  ultimately show ?thesis
    using write_stream_hello by blast
qed

subsection \<open>The rehash step\<close>

lemma calculateHash_cached:
  assumes "knownHashes (NodeId nd) = Some kn"
    and "LocalHashType kn = ChecksumType (Checksum (DataFile (Metadata (Attributes nd))))"
    and "LocalHashValue kn = ChecksumValue (Checksum (DataFile (Metadata (Attributes nd))))"
    and "RemoteHashes kn (RemoteHashType (Attributes nd)) \<noteq> None"
  shows "calculateHash eng key pid nd knownHashes = (None, knownHashes, [])"
  using assms by (simp add: calculateHash_def lookupHashes_def Let_def)

lemma calculateHash_stale:
  assumes "\<forall>kn. knownHashes (NodeId nd) = Some kn \<longrightarrow>
              LocalHashType kn \<noteq> ChecksumType (Checksum (DataFile (Metadata (Attributes nd))))
            \<or> LocalHashValue kn \<noteq> ChecksumValue (Checksum (DataFile (Metadata (Attributes nd))))"
  shows "calculateHash eng key pid nd knownHashes =
     (case doHash eng key pid nd of
        ((h, Some err), srcs) \<Rightarrow>
          (Some (HashFailed (StorageIdentifier (DataFile (Metadata (Attributes nd)))) err),
           knownHashes, srcs)
      | ((h, None), srcs) \<Rightarrow>
          (None,
           knownHashes(NodeId nd \<mapsto>
             \<lparr>LocalHashType = ChecksumType (Checksum (DataFile (Metadata (Attributes nd)))),
              LocalHashValue = ChecksumValue (Checksum (DataFile (Metadata (Attributes nd)))),
              RemoteHashes = [RemoteHashType (Attributes nd) \<mapsto> Sprintf_x h]\<rparr>),
           srcs))"
proof (cases "knownHashes (NodeId nd)")
  case None
  then show ?thesis
    by (simp add: calculateHash_def Let_def split: prod.splits option.splits)
next
  case (Some kn)
  with assms consider
      "LocalHashType kn \<noteq> ChecksumType (Checksum (DataFile (Metadata (Attributes nd))))"
    | "LocalHashValue kn \<noteq> ChecksumValue (Checksum (DataFile (Metadata (Attributes nd))))"
    by blast
  then show ?thesis
  proof cases
    case 1
    with Some show ?thesis
      by (simp add: calculateHash_def lookupHashes_def Let_def split: prod.splits option.splits)
  next
    case 2
    with Some show ?thesis
      by (simp add: calculateHash_def lookupHashes_def Let_def split: prod.splits option.splits)
  qed
qed

lemma calculateHash_missing_kind:
  assumes "knownHashes (NodeId nd) = Some kn"
    and "LocalHashType kn = ChecksumType (Checksum (DataFile (Metadata (Attributes nd))))"
    and "LocalHashValue kn = ChecksumValue (Checksum (DataFile (Metadata (Attributes nd))))"
    and "RemoteHashes kn (RemoteHashType (Attributes nd)) = None"
  shows "calculateHash eng key pid nd knownHashes =
     (case doHash eng key pid nd of
        ((h, Some err), srcs) \<Rightarrow>
          (Some (HashFailed (StorageIdentifier (DataFile (Metadata (Attributes nd)))) err),
           knownHashes, srcs)
      | ((h, None), srcs) \<Rightarrow>
          (None,
           knownHashes(NodeId nd \<mapsto>
             kn\<lparr>RemoteHashes := (RemoteHashes kn)(RemoteHashType (Attributes nd) \<mapsto> Sprintf_x h)\<rparr>),
           srcs))"
  using assms by (simp add: calculateHash_def lookupHashes_def Let_def)

text \<open>A copy to a sink without a limit through one hashing reader has written all the
  bytes of the stream, in order, to the sink and to the hasher, and its error is the one
  that ended the stream, unless that is the end of the file.\<close>

lemma Copy1:
  assumes "limit f = None"
    and "Copy f (HashingReader (Source xs) p) hs = (e, f', r', hs')"
  shows "e = (if ending xs = EOF then None else Some (ending xs))
       \<and> sunk f' = sunk f @ delivered xs
       \<and> hs' = hs(p := hasher_Write (hs p) (delivered xs))"
  using assms
proof (induction xs arbitrary: f hs)
  case Nil
  then show ?case by (simp add: Copy.simps [of f] hasher_Write_Nil)
next
  case (Cons x xs)
  obtain b er where x: "x = (b, er)" by (cases x)
  let ?f1 = "f\<lparr>sunk := sunk f @ b\<rparr>"
  let ?hs = "hs(p := hasher_Write (hs p) b)"
  let ?R = "HashingReader (Source xs) p"
  have w: "(if b \<noteq> [] then sink_Write f b else (None, f)) = (None, ?f1)"
    using Cons.prems(1) by (simp add: sink_Write_def)
  have unfold: "Copy f (HashingReader (Source (x # xs)) p) hs =
      (case er of Some err \<Rightarrow> (if err = EOF then None else Some err, ?f1, ?R, ?hs)
       | None \<Rightarrow> Copy ?f1 ?R ?hs)"
    using w by (subst Copy.simps) (simp add: x)
  show ?case
  proof (cases er)
    case None
    with Cons.prems(2) unfold have c: "Copy ?f1 ?R ?hs = (e, f', r', hs')" by simp
    have "limit ?f1 = None" using Cons.prems(1) by simp
    from Cons.IH [OF this c] show ?thesis
      using x None by (auto simp: hasher_Write_append fun_eq_iff)
  next
    case (Some err)
    with Cons.prems(2) unfold show ?thesis
      using x by auto
  qed
qed

lemma hashStored_read:
  assumes "openErr (stored eng src) = None"
  shows "hashStored eng src h0 =
    ((hasher_Sum (digests eng) (hasher_Write h0 (delivered (script (stored eng src)))),
      if ending (script (stored eng src)) = EOF then None
      else Some (ending (script (stored eng src)))),
     [src])"
proof -
  obtain e d r hs' where c:
    "Copy \<lparr>sunk = [], limit = None\<rparr> (HashingReader (Source (script (stored eng src))) TheHasher)
       (\<lambda>i. h0) = (e, d, r, hs')"
    by (cases "Copy \<lparr>sunk = [], limit = None\<rparr>
        (HashingReader (Source (script (stored eng src))) TheHasher) (\<lambda>i. h0)")
  have "limit \<lparr>sunk = [], limit = None\<rparr> = None" by simp
  from Copy1 [OF this c] c assms show ?thesis
    by (simp add: hashStored_def)
qed

text \<open>\<open>doHash\<close> of a node whose stored file can be opened: the source it reads is the one
  that the configuration and the storage identifier select, and the result is the sum of
  a fresh accumulator of the remote kind after all the bytes of that file, with the error
  that ended the reading.\<close>

lemma doHash_read:
  assumes "trimProtocol pid = Inr p"
    and "getHash (RemoteHashType (Attributes nd)) (Filesize (DataFile (Metadata (Attributes nd)))) = Inr h0"
    and "(DefaultDriver (cfg eng) = [] \<or> directUpload (cfg eng) \<noteq> ''true''
              \<or> driver (getStorage (StorageIdentifier (DataFile (Metadata (Attributes nd))))) = ''file''
              \<or> driver (getStorage (StorageIdentifier (DataFile (Metadata (Attributes nd))))) = ''s3'')"
    and "src = (if DefaultDriver (cfg eng) = [] \<or> directUpload (cfg eng) \<noteq> ''true''
                then Download (FileId (DataFile (Metadata (Attributes nd))))
                else if driver (getStorage (StorageIdentifier (DataFile (Metadata (Attributes nd))))) = ''file''
                then OpenFile (PathToFilesDir (cfg eng) @ p @ ''/''
                        @ sfilename (getStorage (StorageIdentifier (DataFile (Metadata (Attributes nd))))))
                else GetObject (bucket (getStorage (StorageIdentifier (DataFile (Metadata (Attributes nd))))))
                        (p @ ''/'' @ sfilename (getStorage (StorageIdentifier (DataFile (Metadata (Attributes nd)))))))"
    and "openErr (stored eng src) = None"
  shows "doHash eng key pid nd =
    ((hasher_Sum (digests eng) (hasher_Write h0 (delivered (script (stored eng src)))),
      if ending (script (stored eng src)) = EOF then None
      else Some (ending (script (stored eng src)))),
     [src])"
proof -
  have "doHash eng key pid nd = hashStored eng src h0"
    using assms(1-4) by (auto simp: doHash_def Let_def)
  then show ?thesis
    using assms(5) by (simp add: hashStored_read)
qed

text \<open>
  Claim C9, as amended. For every node processed by the rehash step \<open>calculateHash\<close>: if
  the cached entry's local hash kind and value equal the dataset's stored checksum and
  the cache holds a value for the node's remote hash kind, the cache is left unchanged and
  nothing is read. If the local hash differs or there is no entry, and the stored file of
  the node (the download, the local file or the S3 object that the configuration and the
  storage identifier select) is opened and read to its end without an error, then that
  one file is read, the entry's remote hashes are discarded and the entry is rebuilt with
  the dataset's current checksum as local hash and, as its only remote hash, the sum in
  hexadecimal of a fresh accumulator of the remote kind after all the bytes of the file.
  That sum is the remote-kind hash of the current bytes for \<open>md5\<close>, \<open>sha1\<close> and
  \<open>fileSize\<close>, and for \<open>gitHash\<close> when the file size recorded in the dataset is the
  number of those bytes. If hashing fails, the error is returned and the cache is left as
  it was.
\<close>

theorem calculateHash_invariants:
  "(knownHashes (NodeId nd) = Some kn
      \<and> LocalHashType kn = ChecksumType (Checksum (DataFile (Metadata (Attributes nd))))
      \<and> LocalHashValue kn = ChecksumValue (Checksum (DataFile (Metadata (Attributes nd))))
      \<and> RemoteHashes kn (RemoteHashType (Attributes nd)) \<noteq> None
    \<longrightarrow> calculateHash eng key pid nd knownHashes = (None, knownHashes, []))
   \<and> ((knownHashes (NodeId nd) = None
        \<or> LocalHashType (lookupHashes knownHashes (NodeId nd)) \<noteq> ChecksumType (Checksum (DataFile (Metadata (Attributes nd))))
        \<or> LocalHashValue (lookupHashes knownHashes (NodeId nd)) \<noteq> ChecksumValue (Checksum (DataFile (Metadata (Attributes nd)))))
       \<and> trimProtocol pid = Inr p
       \<and> getHash (RemoteHashType (Attributes nd)) (Filesize (DataFile (Metadata (Attributes nd)))) = Inr h0
       \<and> (DefaultDriver (cfg eng) = [] \<or> directUpload (cfg eng) \<noteq> ''true''
              \<or> driver (getStorage (StorageIdentifier (DataFile (Metadata (Attributes nd))))) = ''file''
              \<or> driver (getStorage (StorageIdentifier (DataFile (Metadata (Attributes nd))))) = ''s3'')
       \<and> src = (if DefaultDriver (cfg eng) = [] \<or> directUpload (cfg eng) \<noteq> ''true''
                then Download (FileId (DataFile (Metadata (Attributes nd))))
                else if driver (getStorage (StorageIdentifier (DataFile (Metadata (Attributes nd))))) = ''file''
                then OpenFile (PathToFilesDir (cfg eng) @ p @ ''/''
                        @ sfilename (getStorage (StorageIdentifier (DataFile (Metadata (Attributes nd))))))
                else GetObject (bucket (getStorage (StorageIdentifier (DataFile (Metadata (Attributes nd))))))
                        (p @ ''/'' @ sfilename (getStorage (StorageIdentifier (DataFile (Metadata (Attributes nd)))))))
       \<and> openErr (stored eng src) = None
       \<and> ending (script (stored eng src)) = EOF
    \<longrightarrow> calculateHash eng key pid nd knownHashes =
          (None,
           knownHashes(NodeId nd \<mapsto>
             \<lparr>LocalHashType = ChecksumType (Checksum (DataFile (Metadata (Attributes nd)))),
              LocalHashValue = ChecksumValue (Checksum (DataFile (Metadata (Attributes nd)))),
              RemoteHashes = [RemoteHashType (Attributes nd) \<mapsto>
                Sprintf_x (hasher_Sum (digests eng) (hasher_Write h0 (delivered (script (stored eng src)))))]\<rparr>),
           [src])
        \<and> ((RemoteHashType (Attributes nd) \<noteq> GitHash
              \<or> sint (Filesize (DataFile (Metadata (Attributes nd)))) = int (length (delivered (script (stored eng src)))))
             \<longrightarrow> hasher_Sum (digests eng) (hasher_Write h0 (delivered (script (stored eng src))))
                   = spec_hash (digests eng) (RemoteHashType (Attributes nd)) (delivered (script (stored eng src)))))
   \<and> ((knownHashes (NodeId nd) = None
        \<or> LocalHashType (lookupHashes knownHashes (NodeId nd)) \<noteq> ChecksumType (Checksum (DataFile (Metadata (Attributes nd))))
        \<or> LocalHashValue (lookupHashes knownHashes (NodeId nd)) \<noteq> ChecksumValue (Checksum (DataFile (Metadata (Attributes nd)))))
       \<and> doHash eng key pid nd = ((h, Some err), srcs)
    \<longrightarrow> calculateHash eng key pid nd knownHashes =
          (Some (HashFailed (StorageIdentifier (DataFile (Metadata (Attributes nd)))) err), knownHashes, srcs))"
proof (intro conjI impI)
  assume "knownHashes (NodeId nd) = Some kn
      \<and> LocalHashType kn = ChecksumType (Checksum (DataFile (Metadata (Attributes nd))))
      \<and> LocalHashValue kn = ChecksumValue (Checksum (DataFile (Metadata (Attributes nd))))
      \<and> RemoteHashes kn (RemoteHashType (Attributes nd)) \<noteq> None"
  then show "calculateHash eng key pid nd knownHashes = (None, knownHashes, [])"
    by (simp add: calculateHash_cached)
next
  assume a: "(knownHashes (NodeId nd) = None
        \<or> LocalHashType (lookupHashes knownHashes (NodeId nd)) \<noteq> ChecksumType (Checksum (DataFile (Metadata (Attributes nd))))
        \<or> LocalHashValue (lookupHashes knownHashes (NodeId nd)) \<noteq> ChecksumValue (Checksum (DataFile (Metadata (Attributes nd)))))
       \<and> trimProtocol pid = Inr p
       \<and> getHash (RemoteHashType (Attributes nd)) (Filesize (DataFile (Metadata (Attributes nd)))) = Inr h0
       \<and> (DefaultDriver (cfg eng) = [] \<or> directUpload (cfg eng) \<noteq> ''true''
              \<or> driver (getStorage (StorageIdentifier (DataFile (Metadata (Attributes nd))))) = ''file''
              \<or> driver (getStorage (StorageIdentifier (DataFile (Metadata (Attributes nd))))) = ''s3'')
       \<and> src = (if DefaultDriver (cfg eng) = [] \<or> directUpload (cfg eng) \<noteq> ''true''
                then Download (FileId (DataFile (Metadata (Attributes nd))))
                else if driver (getStorage (StorageIdentifier (DataFile (Metadata (Attributes nd))))) = ''file''
                then OpenFile (PathToFilesDir (cfg eng) @ p @ ''/''
                        @ sfilename (getStorage (StorageIdentifier (DataFile (Metadata (Attributes nd))))))
                else GetObject (bucket (getStorage (StorageIdentifier (DataFile (Metadata (Attributes nd))))))
                        (p @ ''/'' @ sfilename (getStorage (StorageIdentifier (DataFile (Metadata (Attributes nd)))))))
       \<and> openErr (stored eng src) = None
       \<and> ending (script (stored eng src)) = EOF"
  then have stale: "\<forall>kn. knownHashes (NodeId nd) = Some kn \<longrightarrow>
              LocalHashType kn \<noteq> ChecksumType (Checksum (DataFile (Metadata (Attributes nd))))
            \<or> LocalHashValue kn \<noteq> ChecksumValue (Checksum (DataFile (Metadata (Attributes nd))))"
    by (auto simp: lookupHashes_def)
  from a have e: "ending (script (stored eng src)) = EOF" by blast
  have d: "doHash eng key pid nd =
    ((hasher_Sum (digests eng) (hasher_Write h0 (delivered (script (stored eng src)))),
      if ending (script (stored eng src)) = EOF then None
      else Some (ending (script (stored eng src)))),
     [src])"
    using a by (intro doHash_read [where p = p]) blast+
  have cs: "calculateHash eng key pid nd knownHashes =
     (case doHash eng key pid nd of
        ((h, Some err), srcs) \<Rightarrow>
          (Some (HashFailed (StorageIdentifier (DataFile (Metadata (Attributes nd)))) err),
           knownHashes, srcs)
      | ((h, None), srcs) \<Rightarrow>
          (None,
           knownHashes(NodeId nd \<mapsto>
             \<lparr>LocalHashType = ChecksumType (Checksum (DataFile (Metadata (Attributes nd)))),
              LocalHashValue = ChecksumValue (Checksum (DataFile (Metadata (Attributes nd)))),
              RemoteHashes = [RemoteHashType (Attributes nd) \<mapsto> Sprintf_x h]\<rparr>),
           srcs))"
    using stale by (rule calculateHash_stale)
  show "calculateHash eng key pid nd knownHashes =
          (None,
           knownHashes(NodeId nd \<mapsto>
             \<lparr>LocalHashType = ChecksumType (Checksum (DataFile (Metadata (Attributes nd)))),
              LocalHashValue = ChecksumValue (Checksum (DataFile (Metadata (Attributes nd)))),
              RemoteHashes = [RemoteHashType (Attributes nd) \<mapsto>
                Sprintf_x (hasher_Sum (digests eng) (hasher_Write h0 (delivered (script (stored eng src)))))]\<rparr>),
           [src])"
    using e by (simp add: cs d)
next
  assume a: "(knownHashes (NodeId nd) = None
        \<or> LocalHashType (lookupHashes knownHashes (NodeId nd)) \<noteq> ChecksumType (Checksum (DataFile (Metadata (Attributes nd))))
        \<or> LocalHashValue (lookupHashes knownHashes (NodeId nd)) \<noteq> ChecksumValue (Checksum (DataFile (Metadata (Attributes nd)))))
       \<and> trimProtocol pid = Inr p
       \<and> getHash (RemoteHashType (Attributes nd)) (Filesize (DataFile (Metadata (Attributes nd)))) = Inr h0
       \<and> (DefaultDriver (cfg eng) = [] \<or> directUpload (cfg eng) \<noteq> ''true''
              \<or> driver (getStorage (StorageIdentifier (DataFile (Metadata (Attributes nd))))) = ''file''
              \<or> driver (getStorage (StorageIdentifier (DataFile (Metadata (Attributes nd))))) = ''s3'')
       \<and> src = (if DefaultDriver (cfg eng) = [] \<or> directUpload (cfg eng) \<noteq> ''true''
                then Download (FileId (DataFile (Metadata (Attributes nd))))
                else if driver (getStorage (StorageIdentifier (DataFile (Metadata (Attributes nd))))) = ''file''
                then OpenFile (PathToFilesDir (cfg eng) @ p @ ''/''
                        @ sfilename (getStorage (StorageIdentifier (DataFile (Metadata (Attributes nd))))))
                else GetObject (bucket (getStorage (StorageIdentifier (DataFile (Metadata (Attributes nd))))))
                        (p @ ''/'' @ sfilename (getStorage (StorageIdentifier (DataFile (Metadata (Attributes nd)))))))
       \<and> openErr (stored eng src) = None
       \<and> ending (script (stored eng src)) = EOF"
    and b: "RemoteHashType (Attributes nd) \<noteq> GitHash
              \<or> sint (Filesize (DataFile (Metadata (Attributes nd)))) = int (length (delivered (script (stored eng src))))"
  from a have "getHash (RemoteHashType (Attributes nd)) (Filesize (DataFile (Metadata (Attributes nd)))) = Inr h0"
    by blast
  then show "hasher_Sum (digests eng) (hasher_Write h0 (delivered (script (stored eng src))))
                   = spec_hash (digests eng) (RemoteHashType (Attributes nd)) (delivered (script (stored eng src)))"
    using b by (rule getHash_spec_hash)
next
  assume a: "(knownHashes (NodeId nd) = None
        \<or> LocalHashType (lookupHashes knownHashes (NodeId nd)) \<noteq> ChecksumType (Checksum (DataFile (Metadata (Attributes nd))))
        \<or> LocalHashValue (lookupHashes knownHashes (NodeId nd)) \<noteq> ChecksumValue (Checksum (DataFile (Metadata (Attributes nd)))))
       \<and> doHash eng key pid nd = ((h, Some err), srcs)"
  then have stale: "\<forall>kn. knownHashes (NodeId nd) = Some kn \<longrightarrow>
              LocalHashType kn \<noteq> ChecksumType (Checksum (DataFile (Metadata (Attributes nd))))
            \<or> LocalHashValue kn \<noteq> ChecksumValue (Checksum (DataFile (Metadata (Attributes nd))))"
    by (auto simp: lookupHashes_def)
  have cs: "calculateHash eng key pid nd knownHashes =
     (case doHash eng key pid nd of
        ((h, Some err), srcs) \<Rightarrow>
          (Some (HashFailed (StorageIdentifier (DataFile (Metadata (Attributes nd)))) err),
           knownHashes, srcs)
      | ((h, None), srcs) \<Rightarrow>
          (None,
           knownHashes(NodeId nd \<mapsto>
             \<lparr>LocalHashType = ChecksumType (Checksum (DataFile (Metadata (Attributes nd)))),
              LocalHashValue = ChecksumValue (Checksum (DataFile (Metadata (Attributes nd)))),
              RemoteHashes = [RemoteHashType (Attributes nd) \<mapsto> Sprintf_x h]\<rparr>),
           srcs))"
    using stale by (rule calculateHash_stale)
  show "calculateHash eng key pid nd knownHashes =
          (Some (HashFailed (StorageIdentifier (DataFile (Metadata (Attributes nd)))) err), knownHashes, srcs)"
    using a by (simp add: cs)
qed

lemma getHash_example:
  "getHash (RemoteHashType (Attributes (example_node ''a.txt'' 7 Equal)))
      (Filesize (DataFile (Metadata (Attributes (example_node ''a.txt'' 7 Equal)))))
   = Inr (Sha1Digest (''blob 5'' @ [CHR 0x00]))"
  by (simp add: getHash_def kind_defs Sprintf_d_def decimal_nat_5 example_node_def
      example_file_def)

lemma getStorage_example:
  "getStorage (StorageIdentifier (DataFile (Metadata (Attributes (example_node ''a.txt'' 7 Equal)))))
   = \<lparr>driver = ''file'', bucket = [], sfilename = ''18c-0a1b2c3d4e5f''\<rparr>"
  by (simp add: getStorage_def Split_def example_node_def example_file_def Let_def)

lemma doHash_example:
  "doHash (rehash_engine sc) ''key'' ''doi:10.5072/FK2/ABC'' (example_node ''a.txt'' 7 Equal)
   = hashStored (rehash_engine sc) (OpenFile ''/files/10.5072/FK2/ABC/18c-0a1b2c3d4e5f'')
       (Sha1Digest (''blob 5'' @ [CHR 0x00]))"
  by (simp add: doHash_def trimProtocol_example getHash_example getStorage_example
      rehash_engine_def example_engine_def example_config_def Let_def)

text \<open>
  Claim C9 as stated does not hold for the remote kind \<open>gitHash\<close>: \<open>doHash\<close> gives the
  hasher the file size recorded in the dataset (part_000, line 206), not the number of
  the bytes it reads. For a node recorded with 5 bytes whose stored file holds the one
  byte \<open>a\<close>, the rehash step caches the SHA-1 of \<open>"blob 5"\<close>, a zero byte and \<open>a\<close>, which
  is not the \<open>gitHash\<close> of the current bytes.
\<close>

theorem calculateHash_invariants_counterexample:
  "delivered (script (stored (rehash_engine [(''a'', None)])
       (OpenFile ''/files/10.5072/FK2/ABC/18c-0a1b2c3d4e5f''))) = ''a''
   \<and> calculateHash (rehash_engine [(''a'', None)]) ''key'' ''doi:10.5072/FK2/ABC''
        (example_node ''a.txt'' 7 Equal) Map.empty
      = (None,
         [''a.txt'' \<mapsto> \<lparr>LocalHashType = ''md5'',
                        LocalHashValue = ''5d41402abc4b2a76b9719d911017c592'',
                        RemoteHashes = [''gitHash'' \<mapsto>
                          Sprintf_x (sha1sum plain_digests (''blob 5'' @ [CHR 0x00] @ ''a''))]\<rparr>],
         [OpenFile ''/files/10.5072/FK2/ABC/18c-0a1b2c3d4e5f''])
   \<and> Sprintf_x (sha1sum plain_digests (''blob 5'' @ [CHR 0x00] @ ''a''))
        \<noteq> Sprintf_x (spec_hash plain_digests GitHash ''a'')"
proof -
  let ?eng = "rehash_engine [(''a'', None)]"
  let ?src = "OpenFile ''/files/10.5072/FK2/ABC/18c-0a1b2c3d4e5f''"
  let ?nd = "example_node ''a.txt'' 7 Equal"
  have bytes: "delivered (script (stored ?eng ?src)) = ''a''"
    by (simp add: rehash_engine_def)
  have "hashStored ?eng ?src (Sha1Digest (''blob 5'' @ [CHR 0x00]))
      = ((''sha1:blob 5'' @ [CHR 0x00] @ ''a'', None), [?src])"
    by (simp add: hashStored_def Copy.simps sink_Write_def rehash_engine_def
        example_engine_def plain_digests_def)
  then have d: "doHash ?eng ''key'' ''doi:10.5072/FK2/ABC'' ?nd
      = ((''sha1:blob 5'' @ [CHR 0x00] @ ''a'', None), [?src])"
    by (simp only: doHash_example)
  have nd: "NodeId ?nd = ''a.txt''" "RemoteHashType (Attributes ?nd) = ''gitHash''"
    "ChecksumType (Checksum (DataFile (Metadata (Attributes ?nd)))) = ''md5''"
    "ChecksumValue (Checksum (DataFile (Metadata (Attributes ?nd))))
       = ''5d41402abc4b2a76b9719d911017c592''"
    by (simp_all add: example_node_def example_file_def)
  have "calculateHash ?eng ''key'' ''doi:10.5072/FK2/ABC'' ?nd Map.empty =
     (case doHash ?eng ''key'' ''doi:10.5072/FK2/ABC'' ?nd of
        ((h, Some err), srcs) \<Rightarrow>
          (Some (HashFailed (StorageIdentifier (DataFile (Metadata (Attributes ?nd)))) err),
           Map.empty, srcs)
      | ((h, None), srcs) \<Rightarrow>
          (None,
           Map.empty(NodeId ?nd \<mapsto>
             \<lparr>LocalHashType = ChecksumType (Checksum (DataFile (Metadata (Attributes ?nd)))),
              LocalHashValue = ChecksumValue (Checksum (DataFile (Metadata (Attributes ?nd)))),
              RemoteHashes = [RemoteHashType (Attributes ?nd) \<mapsto> Sprintf_x h]\<rparr>),
           srcs))"
    by (rule calculateHash_stale) simp
  then have "calculateHash ?eng ''key'' ''doi:10.5072/FK2/ABC'' ?nd Map.empty
      = (None,
         [''a.txt'' \<mapsto> \<lparr>LocalHashType = ''md5'',
                        LocalHashValue = ''5d41402abc4b2a76b9719d911017c592'',
                        RemoteHashes = [''gitHash'' \<mapsto>
                          Sprintf_x (''sha1:blob 5'' @ [CHR 0x00] @ ''a'')]\<rparr>],
         [?src])"
    by (simp only: d nd) simp
  moreover have "sha1sum plain_digests (''blob 5'' @ [CHR 0x00] @ ''a'')
      = ''sha1:blob 5'' @ [CHR 0x00] @ ''a''"
    by (simp add: plain_digests_def)
  moreover have "spec_hash plain_digests GitHash ''a'' = ''sha1:blob 1'' @ [CHR 0x00] @ ''a''"
    by (simp add: spec_hash_def plain_digests_def kind_defs decimal_nat_1)
  moreover have "Sprintf_x (''sha1:blob 5'' @ [CHR 0x00] @ ''a'')
      \<noteq> Sprintf_x (''sha1:blob 1'' @ [CHR 0x00] @ ''a'')"
    by (simp add: Sprintf_x_def hex_digit_def)
  ultimately show ?thesis
    using bytes by simp
qed

theorem calculateHash_invariants_witness:
  "calculateHash example_engine ''key'' ''doi:10.5072/FK2/ABC'' (example_node ''a.txt'' 7 Equal)
      [''a.txt'' \<mapsto> \<lparr>LocalHashType = ''md5'',
                      LocalHashValue = ''5d41402abc4b2a76b9719d911017c592'',
                      RemoteHashes = [''gitHash'' \<mapsto> ''b6fc4c620b67d95f953a5c1c1230aaab5db5a1b0'']\<rparr>]
    = (None,
       [''a.txt'' \<mapsto> \<lparr>LocalHashType = ''md5'',
                      LocalHashValue = ''5d41402abc4b2a76b9719d911017c592'',
                      RemoteHashes = [''gitHash'' \<mapsto> ''b6fc4c620b67d95f953a5c1c1230aaab5db5a1b0'']\<rparr>],
       [])
   \<and> delivered (script (stored (rehash_engine [(''hel'', None), (''lo'', None)])
        (OpenFile ''/files/10.5072/FK2/ABC/18c-0a1b2c3d4e5f''))) = ''hello''
   \<and> calculateHash (rehash_engine [(''hel'', None), (''lo'', None)]) ''key''
        ''doi:10.5072/FK2/ABC'' (example_node ''a.txt'' 7 Equal) stale_hashes
      = (None,
         [''a.txt'' \<mapsto> \<lparr>LocalHashType = ''md5'',
                        LocalHashValue = ''5d41402abc4b2a76b9719d911017c592'',
                        RemoteHashes = [''gitHash'' \<mapsto>
                          Sprintf_x (spec_hash plain_digests GitHash ''hello'')]\<rparr>],
         [OpenFile ''/files/10.5072/FK2/ABC/18c-0a1b2c3d4e5f''])"
proof -
  let ?nd = "example_node ''a.txt'' 7 Equal"
  let ?kn = "\<lparr>LocalHashType = ''md5'',
               LocalHashValue = ''5d41402abc4b2a76b9719d911017c592'',
               RemoteHashes = [''gitHash'' \<mapsto> ''b6fc4c620b67d95f953a5c1c1230aaab5db5a1b0'']\<rparr>"
  let ?eng = "rehash_engine [(''hel'', None), (''lo'', None)]"
  let ?src = "OpenFile ''/files/10.5072/FK2/ABC/18c-0a1b2c3d4e5f''"
  let ?h0 = "Sha1Digest (''blob 5'' @ [CHR 0x00])"
  have nd: "NodeId ?nd = ''a.txt''" "RemoteHashType (Attributes ?nd) = ''gitHash''"
    "ChecksumType (Checksum (DataFile (Metadata (Attributes ?nd)))) = ''md5''"
    "ChecksumValue (Checksum (DataFile (Metadata (Attributes ?nd))))
       = ''5d41402abc4b2a76b9719d911017c592''"
    "sint (Filesize (DataFile (Metadata (Attributes ?nd)))) = 5"
    by (simp_all add: example_node_def example_file_def)
  have 1: "calculateHash example_engine ''key'' ''doi:10.5072/FK2/ABC'' ?nd [''a.txt'' \<mapsto> ?kn]
      = (None, [''a.txt'' \<mapsto> ?kn], [])"
    using calculateHash_invariants [of "[''a.txt'' \<mapsto> ?kn]" ?nd ?kn example_engine "''key''"
        "''doi:10.5072/FK2/ABC''"] nd
    by simp
  have bytes: "delivered (script (stored ?eng ?src)) = ''hello''"
    by (simp add: rehash_engine_def)
  have stale: "LocalHashValue (lookupHashes stale_hashes (NodeId ?nd))
      \<noteq> ChecksumValue (Checksum (DataFile (Metadata (Attributes ?nd))))"
    by (simp add: nd stale_hashes_def lookupHashes_def)
  have world: "DefaultDriver (cfg ?eng) = ''file''" "directUpload (cfg ?eng) = ''true''"
    "PathToFilesDir (cfg ?eng) = ''/files/''" "digests ?eng = plain_digests"
    "openErr (stored ?eng ?src) = None" "ending (script (stored ?eng ?src)) = EOF"
    by (simp_all add: rehash_engine_def example_engine_def example_config_def)
  have src: "?src = (if DefaultDriver (cfg ?eng) = [] \<or> directUpload (cfg ?eng) \<noteq> ''true''
      then Download (FileId (DataFile (Metadata (Attributes ?nd))))
      else if driver (getStorage (StorageIdentifier (DataFile (Metadata (Attributes ?nd))))) = ''file''
      then OpenFile (PathToFilesDir (cfg ?eng) @ ''10.5072/FK2/ABC'' @ ''/''
              @ sfilename (getStorage (StorageIdentifier (DataFile (Metadata (Attributes ?nd))))))
      else GetObject (bucket (getStorage (StorageIdentifier (DataFile (Metadata (Attributes ?nd))))))
              (''10.5072/FK2/ABC'' @ ''/''
                 @ sfilename (getStorage (StorageIdentifier (DataFile (Metadata (Attributes ?nd)))))))"
    by (simp add: world getStorage_example)
  have size: "sint (Filesize (DataFile (Metadata (Attributes ?nd))))
      = int (length (delivered (script (stored ?eng ?src))))"
    by (simp add: nd bytes)
  have drv: "driver (getStorage (StorageIdentifier (DataFile (Metadata (Attributes ?nd))))) = ''file''"
    by (simp add: getStorage_example)
  from calculateHash_invariants [where knownHashes = stale_hashes and nd = ?nd and eng = ?eng
      and key = "''key''" and pid = "''doi:10.5072/FK2/ABC''" and p = "''10.5072/FK2/ABC''"
      and ?h0.0 = ?h0 and src = ?src]
  have "calculateHash ?eng ''key'' ''doi:10.5072/FK2/ABC'' ?nd stale_hashes =
          (None,
           stale_hashes(NodeId ?nd \<mapsto>
             \<lparr>LocalHashType = ChecksumType (Checksum (DataFile (Metadata (Attributes ?nd)))),
              LocalHashValue = ChecksumValue (Checksum (DataFile (Metadata (Attributes ?nd)))),
              RemoteHashes = [RemoteHashType (Attributes ?nd) \<mapsto>
                Sprintf_x (hasher_Sum (digests ?eng)
                   (hasher_Write ?h0 (delivered (script (stored ?eng ?src)))))]\<rparr>),
           [?src])
        \<and> hasher_Sum (digests ?eng) (hasher_Write ?h0 (delivered (script (stored ?eng ?src))))
             = spec_hash (digests ?eng) (RemoteHashType (Attributes ?nd))
                 (delivered (script (stored ?eng ?src)))"
    using stale trimProtocol_example getHash_example drv src world(5,6) size by blast
  then have 2: "calculateHash ?eng ''key'' ''doi:10.5072/FK2/ABC'' ?nd stale_hashes
      = (None,
         [''a.txt'' \<mapsto> \<lparr>LocalHashType = ''md5'',
                        LocalHashValue = ''5d41402abc4b2a76b9719d911017c592'',
                        RemoteHashes = [''gitHash'' \<mapsto>
                          Sprintf_x (spec_hash plain_digests GitHash ''hello'')]\<rparr>],
         [?src])"
    by (simp add: nd bytes world(4) stale_hashes_def GitHash_def)
  from 1 bytes 2 show ?thesis by simp
qed
subsection \<open>Filtering redundant actions\<close>

text \<open>The two loops of \<open>filterRedundant\<close> as filters.\<close>

lemma filterEqual_filter:
  "filterEqual knownHashes nds (acc, d) =
     (acc @ filter (\<lambda>(k, v). Action v = Delete
                      \<or> RemoteHashes (lookupHashes knownHashes k) (RemoteHashType (Attributes v))
                           \<noteq> Some (RemoteHash (Attributes v))) nds,
      d \<or> list_ex (\<lambda>(k, v). Action v = Delete) nds)"
  by (induction nds arbitrary: acc d) (auto simp: Let_def)

lemma filterDeletes_filter:
  "filterDeletes nm nds res = res @ filter (\<lambda>(k, v). \<not> (Action v = Delete \<and> nm k \<noteq> None)) nds"
proof (induction nds arbitrary: res)
  case Nil
  show ?case by simp
next
  case (Cons x nds)
  obtain k v where x: "x = (k, v)" by (cases x)
  show ?case
    by (cases "Action v = Delete \<and> nm k \<noteq> None") (simp_all add: x Cons.IH)
qed

lemma mapToNodes_empty: "mapToNodes [] = Map.empty"
  by (simp add: mapToNodes_def)

text \<open>
  Claim C1 at the stale delete of the specification's scenario 2. The job deletes
  \<open>b.txt\<close>. When the fresh listing no longer has \<open>b.txt\<close> (another process has removed
  it), \<open>filterRedundant\<close> keeps the delete, which the claim says is dropped; when the
  fresh listing still has \<open>b.txt\<close>, \<open>filterRedundant\<close> drops the delete, which the claim
  says is kept. In both cases the listing is requested once.
\<close>

theorem filterRedundant_stale_delete:
  "filterRedundant example_engine delete_job Map.empty
     = (Inr [(''b.txt'', example_node ''b.txt'' 7 Delete)],
        [ListFilesCall ''doi:10.5072/FK2/ABC'' ''key''])
   \<and> filterRedundant (example_engine\<lparr>listing := (\<lambda>p k. Inr listing_with_b)\<rparr>) delete_job Map.empty
     = (Inr [], [ListFilesCall ''doi:10.5072/FK2/ABC'' ''key''])"
proof -
  have nd: "Action (example_node ''b.txt'' 7 Delete) = Delete"
    by (simp add: example_node_def)
  have job: "WritableNodes delete_job = [(''b.txt'', example_node ''b.txt'' 7 Delete)]"
    "PersistentId delete_job = ''doi:10.5072/FK2/ABC''" "DataverseKey delete_job = ''key''"
    by (simp_all add: delete_job_def example_job_def)
  have present: "mapToNodes listing_with_b ''b.txt'' \<noteq> None"
    by (simp add: mapToNodes_def listing_with_b_def mapToNode_def example_file_def Let_def)
  have 1: "filterRedundant example_engine delete_job Map.empty
     = (Inr [(''b.txt'', example_node ''b.txt'' 7 Delete)],
        [ListFilesCall ''doi:10.5072/FK2/ABC'' ''key''])"
    using nd
    by (simp add: filterRedundant_def job GetNodeMap_def example_engine_def mapToNodes_empty Let_def)
  have 2: "filterRedundant (example_engine\<lparr>listing := (\<lambda>p k. Inr listing_with_b)\<rparr>) delete_job Map.empty
     = (Inr [], [ListFilesCall ''doi:10.5072/FK2/ABC'' ''key''])"
    using nd present
    by (simp add: filterRedundant_def job GetNodeMap_def Let_def)
  from 1 2 show ?thesis by (rule conjI)
qed

subsection \<open>The write loop and the rehash loop\<close>

lemma persistNode_residual:
  "persistNode eng job streams k v i st = (r, st') \<Longrightarrow>
   residual st' = (if r = None then delete_key k (residual st) else residual st)"
  by (auto simp: persistNode_def called_def Let_def
      split: if_splits option.splits sum.splits prod.splits)

lemma flush_residual: "residual (flush p st) = residual st"
  by (simp add: flush_def)

lemma removed_all: "set (map fst nds) \<subseteq> set (map fst ds) \<Longrightarrow> removed ds nds = []"
proof (induction ds arbitrary: nds)
  case Nil
  then show ?case by (simp add: removed_def)
next
  case (Cons d ds)
  have "set (map fst (delete_key (fst d) nds)) \<subseteq> set (map fst ds)"
    using Cons.prems by (auto simp: delete_key_def)
  from Cons.IH [OF this] show ?case by (simp add: removed_def)
qed

text \<open>The write loop removes the nodes of a prefix of its iteration, all of them when it
  returns no error, and stops at the first node whose step fails.\<close>

lemma persistLoop_residual:
  "persistLoop eng job streams tot nds i st = (r, st') \<Longrightarrow>
   \<exists>n \<le> length nds. residual st' = removed (take n nds) (residual st)
        \<and> (r = None \<longrightarrow> n = length nds) \<and> (r \<noteq> None \<longrightarrow> n < length nds)"
proof (induction nds arbitrary: i st)
  case Nil
  then show ?case by (auto simp: removed_def)
next
  case (Cons x nds)
  obtain k v where x: "x = (k, v)" by (cases x)
  show ?case
  proof (cases "cancelled eng i")
    case True
    with Cons.prems x have "st' = st" "r = Some Cancelled" by auto
    then show ?thesis by (intro exI [of _ 0]) (simp add: removed_def)
  next
    case False
    let ?st1 = "if Suc i mod 10 = 0 \<and> Suc i < tot then flush (PersistentId job) st else st"
    obtain r2 st2 where p: "persistNode eng job streams k v (Suc i) ?st1 = (r2, st2)"
      by (cases "persistNode eng job streams k v (Suc i) ?st1")
    have res2: "residual st2 = (if r2 = None then delete_key k (residual st) else residual st)"
      using persistNode_residual [OF p] by (simp add: flush_residual)
    show ?thesis
    proof (cases r2)
      case None
      with Cons.prems x False p
      have "persistLoop eng job streams tot nds (Suc i) st2 = (r, st')"
        by (simp add: Let_def)
      from Cons.IH [OF this] obtain n where n: "n \<le> length nds"
        "residual st' = removed (take n nds) (residual st2)"
        "r = None \<longrightarrow> n = length nds" "r \<noteq> None \<longrightarrow> n < length nds"
        by blast
      with res2 None x show ?thesis
        by (intro exI [of _ "Suc n"]) (simp add: removed_def)
    next
      case (Some err)
      with Cons.prems x False p have "st' = st2" "r = Some err"
        by (simp_all add: Let_def)
      with res2 Some show ?thesis
        by (intro exI [of _ 0]) (simp add: removed_def)
    qed
  qed
qed

lemma calculateHash_error_keeps:
  "calculateHash eng key pid nd knownHashes = (Some err, kn, srcs) \<Longrightarrow> kn = knownHashes"
  by (auto simp: calculateHash_def Let_def split: if_splits prod.splits option.splits)

lemma rehashLoop_residual:
  "rehashLoop eng key pid tot nds i st = (r, st') \<Longrightarrow>
   \<exists>n \<le> length nds. residual st' = removed (take n nds) (residual st)
        \<and> (r = None \<longrightarrow> n = length nds) \<and> (r \<noteq> None \<longrightarrow> n < length nds)"
proof (induction nds arbitrary: i st)
  case Nil
  then show ?case by (auto simp: removed_def)
next
  case (Cons x nds)
  obtain k nd where x: "x = (k, nd)" by (cases x)
  obtain r2 kn srcs where c: "calculateHash eng key pid nd (known st) = (r2, kn, srcs)"
    by (cases "calculateHash eng key pid nd (known st)")
  show ?case
  proof (cases r2)
    case None
    let ?st1 = "st\<lparr>known := kn, calls := calls st @ map ReadCall srcs\<rparr>"
    let ?st2 = "if Suc i mod 10 = 0 \<and> Suc i < tot then flush pid ?st1 else ?st1"
    from Cons.prems x c None
    have "rehashLoop eng key pid tot nds (Suc i) (?st2\<lparr>residual := delete_key k (residual ?st2)\<rparr>)
        = (r, st')"
      by (simp add: Let_def)
    from Cons.IH [OF this] obtain n where n: "n \<le> length nds"
      "residual st' = removed (take n nds) (delete_key k (residual ?st2))"
      "r = None \<longrightarrow> n = length nds" "r \<noteq> None \<longrightarrow> n < length nds"
      by auto
    have "residual ?st2 = residual st" by (simp add: flush_residual)
    with n x show ?thesis
      by (intro exI [of _ "Suc n"]) (simp add: removed_def)
  next
    case (Some err)
    with Cons.prems x c have "residual st' = residual st" "r = Some err"
      by auto
    then show ?thesis
      by (intro exI [of _ 0]) (simp add: removed_def)
  qed
qed

lemma doPersistNodeMap_done:
  assumes "doPersistNodeMap eng streams job knownHashes s = ((out, None), st)"
  shows "WritableNodes out = []"
proof -
  let ?nds = "WritableNodes job"
  let ?st0 = "\<lparr>known = knownHashes, residual = ?nds, store = s,
                 calls = [CheckPermissionCall (DataverseKey job) (PersistentId job)]\<rparr>"
  have perm: "permission eng (DataverseKey job) (PersistentId job) = None"
    using assms
    by (cases "permission eng (DataverseKey job) (PersistentId job)")
       (simp_all add: doPersistNodeMap_def Let_def)
  obtain r st1 where l: "persistLoop eng job streams (length ?nds) ?nds 0 ?st0 = (r, st1)"
    by (cases "persistLoop eng job streams (length ?nds) ?nds 0 ?st0")
  have r: "r = None" and out: "out = job\<lparr>WritableNodes := residual st1\<rparr>"
    using assms perm l
    by (cases r; simp add: doPersistNodeMap_def Let_def split: if_splits)+
  from persistLoop_residual [OF l] r
  have "residual st1 = removed ?nds ?nds" by auto
  then show ?thesis
    using out by (simp add: removed_all)
qed

lemma doRehash_done:
  assumes "doRehash eng key pid (WritableNodes job) job s = ((out, None), st)"
  shows "WritableNodes out = []"
proof -
  let ?nds = "WritableNodes job"
  let ?st0 = "\<lparr>known = getKnownHashes s pid, residual = ?nds, store = s,
                 calls = [CheckPermissionCall key pid]\<rparr>"
  have perm: "permission eng key pid = None"
    using assms by (cases "permission eng key pid") (simp_all add: doRehash_def)
  obtain r st1 where l: "rehashLoop eng key pid (length ?nds) ?nds 0 ?st0 = (r, st1)"
    by (cases "rehashLoop eng key pid (length ?nds) ?nds 0 ?st0")
  have r: "r = None" and out: "out = job\<lparr>WritableNodes := residual st1\<rparr>"
    using assms perm l by (simp_all add: doRehash_def)
  from rehashLoop_residual [OF l] r
  have "residual st1 = removed ?nds ?nds" by auto
  then show ?thesis
    using out by (simp add: removed_all)
qed

lemma doWork_done:
  assumes "doWork eng job s = ((out, None), st)"
  shows "WritableNodes out = []"
proof (cases "StreamType job = ''hash-only''")
  case True
  with assms show ?thesis by (simp add: doWork_def doRehash_done)
next
  case False
  then obtain streams where d: "deserialize eng job = Inr streams"
    using assms by (cases "deserialize eng job") (simp_all add: doWork_def)
  obtain fr cs where f: "filterRedundant eng job (getKnownHashes s (PersistentId job)) = (fr, cs)"
    by (cases "filterRedundant eng job (getKnownHashes s (PersistentId job))")
  then obtain w where w: "fr = Inr w"
    using assms False d by (cases fr) (simp_all add: doWork_def Let_def)
  obtain r st1 where p: "doPersistNodeMap eng streams (job\<lparr>WritableNodes := w\<rparr>)
      (getKnownHashes s (PersistentId job)) s = (r, st1)"
    by (cases "doPersistNodeMap eng streams (job\<lparr>WritableNodes := w\<rparr>)
      (getKnownHashes s (PersistentId job)) s")
  with assms False d f w have "r = (out, None)"
    by (simp add: doWork_def Let_def)
  with p show ?thesis by (simp add: doPersistNodeMap_done)
qed

lemma popJob_nonempty:
  assumes "queue_ok s" and "popJob s = (Some job, s1)"
  shows "WritableNodes job \<noteq> []"
proof -
  from assms(2) obtain js where js: "live s ''jobs'' = Some (RList js)" "js \<noteq> []" "job = last js"
    by (auto simp: popJob_def RPop_def split: option.splits rvalue.splits if_splits)
  with assms(1) have "list_all (\<lambda>j. WritableNodes j \<noteq> []) js"
    by (simp add: queue_ok_def)
  with js show ?thesis
    by (simp add: list_all_iff)
qed


lemma example_streams: "deserialize example_engine j = Inr (\<lambda>k. Some \<lparr>openErr = None,
                                             script = [(''hel'', None), (''lo'', Some EOF)]\<rparr>)"
  by (simp add: example_engine_def)

lemma write_stream_example:
  "write_stream example_engine ''key''
      \<lparr>openErr = None, script = [(''hel'', None), (''lo'', Some EOF)]\<rparr>
      ''file://18c-0a1b2c3d4e5f'' ''doi:10.5072/FK2/ABC'' Md5 ''gitHash'' ''a.txt'' 5
   = (Inr (''md5:hello'', ''sha1:blob 5'' @ [CHR 0x00] @ ''hello'', 5),
      Some (LocalFile ''/files/10.5072/FK2/ABC/18c-0a1b2c3d4e5f'', ''hello''))"
  by (simp add: write_stream_def trimProtocol_example getStorage_def Split_def getHash_def
      kind_defs Sprintf_d_def decimal_nat_5 getFile_def open_sink_def Copy.simps
      sink_Write_def example_engine_def example_config_def plain_digests_def good_backend_def
      Let_def)

lemma persistNode_write_example:
  "persistNode example_engine example_job
      (\<lambda>k. Some \<lparr>openErr = None, script = [(''hel'', None), (''lo'', Some EOF)]\<rparr>)
      ''a.txt'' (example_node ''a.txt'' 0 New) i st
   = (None,
      st\<lparr>known := (known st)(''a.txt'' \<mapsto>
            \<lparr>LocalHashType = Md5, LocalHashValue = Sprintf_x ''md5:hello'',
             RemoteHashes = [''gitHash'' \<mapsto> Sprintf_x (''sha1:blob 5'' @ [CHR 0x00] @ ''hello'')]\<rparr>),
         residual := delete_key ''a.txt'' (residual st),
         calls := calls st @
           [WriteCall (Some (LocalFile ''/files/10.5072/FK2/ABC/18c-0a1b2c3d4e5f'', ''hello'')),
            AddFilesCall ''key'' ''doi:10.5072/FK2/ABC''
              \<lparr>jsonStorageIdentifier = ''file://18c-0a1b2c3d4e5f'', jsonFileName = ''a.txt'',
               jsonDirectoryLabel = None, jsonMimeType = ''application/octet-stream'',
               jsonChecksum = \<lparr>ChecksumType = Md5, ChecksumValue = Sprintf_x ''md5:hello''\<rparr>\<rparr>]\<rparr>)"
proof -
  have cfg: "cfg example_engine = example_config" "defaultHash example_config = Md5"
    "fileNames example_engine i = ''18c-0a1b2c3d4e5f''"
    "generateStorageIdentifier example_config ''18c-0a1b2c3d4e5f'' = ''file://18c-0a1b2c3d4e5f''"
    "addFiles example_engine = (\<lambda>k p d. None)"
    by (simp_all add: example_engine_def example_config_def generateStorageIdentifier_def)
  have nd: "Action (example_node ''a.txt'' 0 New) = New"
    "RemoteHashType (Attributes (example_node ''a.txt'' 0 New)) = ''gitHash''"
    "NodeId (example_node ''a.txt'' 0 New) = ''a.txt''"
    "DataFile (Metadata (Attributes (example_node ''a.txt'' 0 New))) = example_file ''a.txt'' 0"
    "DirectoryLabel (Metadata (Attributes (example_node ''a.txt'' 0 New))) = []"
    "Filesize (example_file ''a.txt'' 0) = 5" "FileId (example_file ''a.txt'' 0) = 0"
    "Filename (example_file ''a.txt'' 0) = ''a.txt''"
    by (simp_all add: example_node_def example_file_def)
  have job: "DataverseKey example_job = ''key''" "PersistentId example_job = ''doi:10.5072/FK2/ABC''"
    by (simp_all add: example_job_def)
  show ?thesis
    by (simp add: persistNode_def cfg nd job write_stream_example called_def Let_def)
qed


lemma persistNode_delete_example:
  "persistNode example_engine delete_job streams ''b.txt'' (example_node ''b.txt'' 7 Delete) i st
   = (None,
      st\<lparr>known := (known st)(''b.txt'' := None),
         residual := delete_key ''b.txt'' (residual st),
         calls := calls st @ [DeleteCall ''key'' 7]\<rparr>)"
  by (simp add: persistNode_def delete_job_def example_job_def example_node_def example_file_def
      example_engine_def called_def Let_def)

lemma doPersistNodeMap_delete_example:
  "doPersistNodeMap example_engine streams delete_job knownHashes s
   = ((delete_job\<lparr>WritableNodes := []\<rparr>, None),
      \<lparr>known = knownHashes(''b.txt'' := None), residual = [],
       store = storeKnownHashes ''doi:10.5072/FK2/ABC'' (knownHashes(''b.txt'' := None)) s,
       calls = [CheckPermissionCall ''key'' ''doi:10.5072/FK2/ABC'', DeleteCall ''key'' 7,
                CleanupCall ''key'' ''doi:10.5072/FK2/ABC'']\<rparr>)"
proof -
  have job: "WritableNodes delete_job = [(''b.txt'', example_node ''b.txt'' 7 Delete)]"
    "PersistentId delete_job = ''doi:10.5072/FK2/ABC''" "DataverseKey delete_job = ''key''"
    by (simp_all add: delete_job_def example_job_def)
  have eng: "permission example_engine = (\<lambda>k p. None)" "cancelled example_engine = (\<lambda>i. False)"
    "cleanStorage example_engine = (\<lambda>k p. None)"
    by (simp_all add: example_engine_def)
  show ?thesis
    by (simp add: doPersistNodeMap_def job eng persistNode_delete_example flush_def called_def
        delete_key_def Let_def)
qed

lemma doPersistNodeMap_write_example:
  "doPersistNodeMap example_engine
      (\<lambda>k. Some \<lparr>openErr = None, script = [(''hel'', None), (''lo'', Some EOF)]\<rparr>)
      example_job knownHashes s
   = ((example_job\<lparr>WritableNodes := []\<rparr>, None),
      \<lparr>known = knownHashes(''a.txt'' \<mapsto>
            \<lparr>LocalHashType = Md5, LocalHashValue = Sprintf_x ''md5:hello'',
             RemoteHashes = [''gitHash'' \<mapsto> Sprintf_x (''sha1:blob 5'' @ [CHR 0x00] @ ''hello'')]\<rparr>),
       residual = [],
       store = storeKnownHashes ''doi:10.5072/FK2/ABC''
         (knownHashes(''a.txt'' \<mapsto>
            \<lparr>LocalHashType = Md5, LocalHashValue = Sprintf_x ''md5:hello'',
             RemoteHashes = [''gitHash'' \<mapsto> Sprintf_x (''sha1:blob 5'' @ [CHR 0x00] @ ''hello'')]\<rparr>)) s,
       calls = [CheckPermissionCall ''key'' ''doi:10.5072/FK2/ABC'',
                WriteCall (Some (LocalFile ''/files/10.5072/FK2/ABC/18c-0a1b2c3d4e5f'', ''hello'')),
                AddFilesCall ''key'' ''doi:10.5072/FK2/ABC''
                  \<lparr>jsonStorageIdentifier = ''file://18c-0a1b2c3d4e5f'', jsonFileName = ''a.txt'',
                   jsonDirectoryLabel = None, jsonMimeType = ''application/octet-stream'',
                   jsonChecksum = \<lparr>ChecksumType = Md5, ChecksumValue = Sprintf_x ''md5:hello''\<rparr>\<rparr>,
                CleanupCall ''key'' ''doi:10.5072/FK2/ABC'']\<rparr>)"
proof -
  have job: "WritableNodes example_job = [(''a.txt'', example_node ''a.txt'' 0 New)]"
    "PersistentId example_job = ''doi:10.5072/FK2/ABC''" "DataverseKey example_job = ''key''"
    by (simp_all add: example_job_def)
  have eng: "permission example_engine = (\<lambda>k p. None)" "cancelled example_engine = (\<lambda>i. False)"
    "cleanStorage example_engine = (\<lambda>k p. None)"
    by (simp_all add: example_engine_def)
  show ?thesis
    by (simp add: doPersistNodeMap_def job eng persistNode_write_example flush_def called_def
        delete_key_def Let_def)
qed

lemma marker_not_hashes:
  "markerKey ''doi:10.5072/FK2/ABC'' k \<noteq> hashesKey ''doi:10.5072/FK2/ABC''"
  by (simp add: markerKey_def hashesKey_def)

text \<open>
  Claim C5 at a job that deletes \<open>b.txt\<close> and at a job that writes \<open>a.txt\<close>, in a world
  where every call succeeds. The write loop of the sources completes both jobs with an
  empty residual and no error; after the delete the node's cache entry is gone. It never
  touches the marker key \<open>"<persistentId> -> <nodeId>"\<close>: whatever the store held at that
  key before the job, it holds after it, and from the empty store the marker reads
  \<open>""\<close>, neither \<open>deleted\<close> nor \<open>written\<close>. (The only key the loop writes is the
  cache's, \<open>"hashes: <persistentId>"\<close>.)
\<close>

theorem write_loop_sets_no_marker:
  "fst (doPersistNodeMap example_engine streams delete_job knownHashes s)
     = (delete_job\<lparr>WritableNodes := []\<rparr>, None)
   \<and> known (snd (doPersistNodeMap example_engine streams delete_job knownHashes s)) ''b.txt'' = None
   \<and> kv (store (snd (doPersistNodeMap example_engine streams delete_job knownHashes s)))
        (markerKey ''doi:10.5072/FK2/ABC'' ''b.txt'')
      = kv s (markerKey ''doi:10.5072/FK2/ABC'' ''b.txt'')
   \<and> GetVal (store (snd (doPersistNodeMap example_engine streams delete_job knownHashes empty_store)))
        (markerKey ''doi:10.5072/FK2/ABC'' ''b.txt'') = []
   \<and> fst (doPersistNodeMap example_engine
          (\<lambda>k. Some \<lparr>openErr = None, script = [(''hel'', None), (''lo'', Some EOF)]\<rparr>)
          example_job knownHashes s)
     = (example_job\<lparr>WritableNodes := []\<rparr>, None)
   \<and> kv (store (snd (doPersistNodeMap example_engine
          (\<lambda>k. Some \<lparr>openErr = None, script = [(''hel'', None), (''lo'', Some EOF)]\<rparr>)
          example_job knownHashes s)))
        (markerKey ''doi:10.5072/FK2/ABC'' ''a.txt'')
      = kv s (markerKey ''doi:10.5072/FK2/ABC'' ''a.txt'')
   \<and> GetVal (store (snd (doPersistNodeMap example_engine
          (\<lambda>k. Some \<lparr>openErr = None, script = [(''hel'', None), (''lo'', Some EOF)]\<rparr>)
          example_job knownHashes empty_store)))
        (markerKey ''doi:10.5072/FK2/ABC'' ''a.txt'') = []"
  using marker_not_hashes [of "''a.txt''"] marker_not_hashes [of "''b.txt''"]
  by (simp add: doPersistNodeMap_delete_example doPersistNodeMap_write_example
      storeKnownHashes_def Set_key_def GetVal_def live_def empty_store_def)


lemma live_other: "kv s' k = kv s k \<Longrightarrow> clock s' = clock s \<Longrightarrow> live s' k = live s k"
  by (simp add: live_def split: option.splits prod.splits)

lemma queue_ok_addJob:
  assumes "queue_ok s"
  shows "queue_ok (snd (addJob job b s))"
proof (cases "WritableNodes job = []")
  case True
  with assms show ?thesis by (simp add: addJob_def)
next
  case False
  have push: "queue_ok s' \<Longrightarrow> queue_ok (snd (LPush ''jobs'' job s'))" for s'
    using False
    by (auto simp: queue_ok_def LPush_def live_def split: option.splits rvalue.splits if_splits)
  show ?thesis
  proof (cases b)
    case False
    with assms push \<open>WritableNodes job \<noteq> []\<close> show ?thesis by (simp add: addJob_def)
  next
    case True
    obtain r s' where l: "lock (PersistentId job) s = (r, s')"
      by (cases "lock (PersistentId job) s")
    then have "kv s' ''jobs'' = kv s ''jobs''" "clock s' = clock s"
      using lockKey_not_jobs [of "PersistentId job"]
      by (auto simp: lock_def SetNX_def split: option.splits)
    then have "live s' ''jobs'' = live s ''jobs''" by (rule live_other)
    with assms have "queue_ok s'" by (simp add: queue_ok_def)
    with push l True \<open>WritableNodes job \<noteq> []\<close> show ?thesis
      by (cases r) (simp_all add: addJob_def)
  qed
qed

lemma queue_ok_empty: "queue_ok empty_store"
  by (simp add: queue_ok_def live_def empty_store_def)

lemma filterRedundant_example:
  "filterRedundant example_engine example_job Map.empty
     = (Inr [(''a.txt'', example_node ''a.txt'' 0 New)], [])"
  by (simp add: filterRedundant_def example_job_def example_node_def lookupHashes_def
      zeroHashes_def Let_def)

lemma doWork_example:
  assumes "getKnownHashes s ''doi:10.5072/FK2/ABC'' = Map.empty"
  shows "fst (doWork example_engine example_job s) = (example_job\<lparr>WritableNodes := []\<rparr>, None)"
proof -
  have job: "StreamType example_job = ''github''" "PersistentId example_job = ''doi:10.5072/FK2/ABC''"
    "example_job\<lparr>WritableNodes := [(''a.txt'', example_node ''a.txt'' 0 New)]\<rparr> = example_job"
    by (simp_all add: example_job_def)
  show ?thesis
    using assms
    by (simp add: doWork_def job example_streams filterRedundant_example
        doPersistNodeMap_write_example Let_def)
qed

subsection \<open>What a job writes to the store\<close>

lemma same_but_refl: "same_but key s s"
  by (simp add: same_but_def)

lemma same_but_trans: "same_but key s s1 \<Longrightarrow> same_but key s1 s2 \<Longrightarrow> same_but key s s2"
  by (simp add: same_but_def)

lemma same_but_flush: "same_but (hashesKey p) (store st) (store (flush p st))"
  by (simp add: same_but_def flush_def storeKnownHashes_def Set_key_def)

lemma persistNode_store: "persistNode eng job streams k v i st = (r, st') \<Longrightarrow> store st' = store st"
  by (auto simp: persistNode_def called_def Let_def
      split: if_splits option.splits sum.splits prod.splits)

lemma persistLoop_store:
  "persistLoop eng job streams tot nds i st = (r, st') \<Longrightarrow>
   same_but (hashesKey (PersistentId job)) (store st) (store st')"
proof (induction nds arbitrary: i st)
  case Nil
  then show ?case by (simp add: same_but_refl)
next
  case (Cons x nds)
  obtain k v where x: "x = (k, v)" by (cases x)
  show ?case
  proof (cases "cancelled eng i")
    case True
    with Cons.prems x show ?thesis by (auto simp: same_but_refl)
  next
    case False
    let ?st1 = "if Suc i mod 10 = 0 \<and> Suc i < tot then flush (PersistentId job) st else st"
    obtain r2 st2 where p: "persistNode eng job streams k v (Suc i) ?st1 = (r2, st2)"
      by (cases "persistNode eng job streams k v (Suc i) ?st1")
    have 1: "same_but (hashesKey (PersistentId job)) (store st) (store st2)"
      using persistNode_store [OF p] same_but_flush [of "PersistentId job" st]
      by (simp add: same_but_refl split: if_splits)
    show ?thesis
    proof (cases r2)
      case None
      with Cons.prems x False p
      have "persistLoop eng job streams tot nds (Suc i) st2 = (r, st')"
        by (simp add: Let_def)
      from Cons.IH [OF this] 1 show ?thesis by (rule same_but_trans [rotated])
    next
      case (Some err)
      with Cons.prems x False p have "st' = st2" by (simp add: Let_def)
      with 1 show ?thesis by simp
    qed
  qed
qed

lemma rehashLoop_store:
  "rehashLoop eng key pid tot nds i st = (r, st') \<Longrightarrow>
   same_but (hashesKey pid) (store st) (store st')"
proof (induction nds arbitrary: i st)
  case Nil
  then show ?case by (simp add: same_but_refl)
next
  case (Cons x nds)
  obtain k nd where x: "x = (k, nd)" by (cases x)
  obtain r2 kn srcs where c: "calculateHash eng key pid nd (known st) = (r2, kn, srcs)"
    by (cases "calculateHash eng key pid nd (known st)")
  show ?case
  proof (cases r2)
    case None
    let ?st1 = "st\<lparr>known := kn, calls := calls st @ map ReadCall srcs\<rparr>"
    let ?st2 = "if Suc i mod 10 = 0 \<and> Suc i < tot then flush pid ?st1 else ?st1"
    let ?st3 = "?st2\<lparr>residual := delete_key k (residual ?st2)\<rparr>"
    from Cons.prems x c None
    have "rehashLoop eng key pid tot nds (Suc i) ?st3 = (r, st')"
      by (simp add: Let_def)
    from Cons.IH [OF this] have "same_but (hashesKey pid) (store ?st3) (store st')" .
    moreover have "same_but (hashesKey pid) (store st) (store ?st3)"
      using same_but_flush [of pid ?st1] by (simp add: same_but_refl)
    ultimately show ?thesis by (rule same_but_trans [rotated])
  next
    case (Some err)
    with Cons.prems x c have "store st' = store st" by auto
    then show ?thesis by (simp add: same_but_refl)
  qed
qed

text \<open>A job writes nothing to the store but the cache of its dataset.\<close>

lemma doWork_store:
  assumes "doWork eng job s = (r, st)"
  shows "same_but (hashesKey (PersistentId job)) s (store st)"
proof (cases "StreamType job = ''hash-only''")
  case True
  let ?p = "PersistentId job"
  show ?thesis
  proof (cases "permission eng (DataverseKey job) ?p")
    case None
    let ?st0 = "\<lparr>known = getKnownHashes s ?p, residual = WritableNodes job, store = s,
                   calls = [CheckPermissionCall (DataverseKey job) ?p]\<rparr>"
    obtain e st1 where l: "rehashLoop eng (DataverseKey job) ?p (length (WritableNodes job))
        (WritableNodes job) 0 ?st0 = (e, st1)"
      by (cases "rehashLoop eng (DataverseKey job) ?p (length (WritableNodes job))
        (WritableNodes job) 0 ?st0")
    with assms True None have "st = flush ?p st1"
      by (auto simp: doWork_def doRehash_def)
    with rehashLoop_store [OF l] same_but_flush [of ?p st1] show ?thesis
      by (auto intro: same_but_trans)
  next
    case (Some err)
    with assms True show ?thesis
      by (auto simp: doWork_def doRehash_def same_but_refl)
  qed
next
  case False
  let ?p = "PersistentId job"
  show ?thesis
  proof (cases "deserialize eng job")
    case (Inl err)
    with assms False show ?thesis by (auto simp: doWork_def same_but_refl)
  next
    case (Inr streams)
    obtain fr cs where f: "filterRedundant eng job (getKnownHashes s ?p) = (fr, cs)"
      by (cases "filterRedundant eng job (getKnownHashes s ?p)")
    show ?thesis
    proof (cases fr)
      case (Inl err)
      with assms False Inr f show ?thesis by (auto simp: doWork_def Let_def same_but_refl)
    next
      case (Inr w)
      let ?job = "job\<lparr>WritableNodes := w\<rparr>"
      obtain r1 st1 where p: "doPersistNodeMap eng streams ?job (getKnownHashes s ?p) s = (r1, st1)"
        by (cases "doPersistNodeMap eng streams ?job (getKnownHashes s ?p) s")
      with assms False \<open>deserialize eng job = Inr streams\<close> f Inr
      have st: "store st = store st1" by (auto simp: doWork_def Let_def)
      have "same_but (hashesKey ?p) s (store st1)"
      proof (cases "permission eng (DataverseKey job) ?p")
        case None
        let ?st0 = "\<lparr>known = getKnownHashes s ?p, residual = w, store = s,
                       calls = [CheckPermissionCall (DataverseKey job) ?p]\<rparr>"
        obtain e st2 where l: "persistLoop eng ?job streams (length w) w 0 ?st0 = (e, st2)"
          by (cases "persistLoop eng ?job streams (length w) w 0 ?st0")
        from persistLoop_store [OF l] have 1: "same_but (hashesKey ?p) s (store st2)" by simp
        have "store st1 = store (flush ?p st2)"
          using p None l
          by (cases e) (auto simp: doPersistNodeMap_def Let_def flush_def called_def split: if_splits)
        with 1 same_but_flush [of ?p st2] show ?thesis
          by (auto intro: same_but_trans)
      next
        case (Some err)
        with p show ?thesis by (auto simp: doPersistNodeMap_def Let_def same_but_refl)
      qed
      with st show ?thesis by simp
    qed
  qed
qed

lemma same_but_live: "same_but key s s' \<Longrightarrow> k \<noteq> key \<Longrightarrow> live s' k = live s k"
  by (intro live_other) (simp_all add: same_but_def)

text \<open>
  In these sources a job that returns no error has an empty residual, so the turn of a
  worker that has popped a job always ends with the \<open>unlock\<close> of the job's dataset; the
  queue stays as \<open>addJob\<close> fills it.
\<close>

lemma ProcessJobs_turn_unlocks:
  assumes "popJob s = (Some job, s1)"
  shows "ProcessJobs_turn eng s = unlock (PersistentId job) (store (snd (doWork eng job s1)))"
proof -
  obtain out err st where w: "doWork eng job s1 = ((out, err), st)"
    by (cases "doWork eng job s1") auto
  have "\<not> (err = None \<and> length (WritableNodes out) > 0)"
    using doWork_done [of eng job s1 out st] w by auto
  with assms w show ?thesis
    by (auto simp: ProcessJobs_turn_def)
qed

lemma queue_ok_popJob:
  assumes "queue_ok s"
  shows "queue_ok (snd (popJob s))"
proof (cases "live s ''jobs''")
  case None
  with assms show ?thesis by (simp add: popJob_def RPop_def)
next
  case (Some v)
  show ?thesis
  proof (cases v)
    case (RList js)
    have "list_all (\<lambda>j. WritableNodes j \<noteq> []) (butlast js)"
      using assms Some RList by (auto simp: queue_ok_def list_all_iff dest: in_set_butlastD)
    with assms Some RList show ?thesis
      by (auto simp: popJob_def RPop_def queue_ok_def live_def split: option.splits if_splits)
  next
    case (RStr x)
    with assms Some show ?thesis by (simp add: popJob_def RPop_def)
  next
    case (RHashes m)
    with assms Some show ?thesis by (simp add: popJob_def RPop_def)
  qed
qed

lemma hashesKey_not_jobs: "''jobs'' \<noteq> hashesKey p"
  by (simp add: hashesKey_def)

lemma queue_ok_turn:
  assumes "queue_ok s"
  shows "queue_ok (ProcessJobs_turn eng s)"
proof -
  obtain j s1 where p: "popJob s = (j, s1)" by (cases "popJob s")
  with queue_ok_popJob [OF assms] have q1: "queue_ok s1" by simp
  show ?thesis
  proof (cases j)
    case None
    with p q1 show ?thesis by (simp add: ProcessJobs_turn_def)
  next
    case (Some job)
    let ?st = "snd (doWork eng job s1)"
    have "same_but (hashesKey (PersistentId job)) s1 (store ?st)"
      by (rule doWork_store [of eng job s1 "fst (doWork eng job s1)"]) simp
    then have "live (store ?st) ''jobs'' = live s1 ''jobs''"
      using hashesKey_not_jobs by (rule same_but_live)
    moreover have "live (unlock (PersistentId job) (store ?st)) ''jobs'' = live (store ?st) ''jobs''"
      using lockKey_not_jobs [of "PersistentId job"]
      by (intro live_other) (simp_all add: unlock_def Del_def)
    ultimately have "queue_ok (unlock (PersistentId job) (store ?st))"
      using q1 by (simp add: queue_ok_def)
    with p Some show ?thesis
      by (simp add: ProcessJobs_turn_unlocks)
  qed
qed

subsection \<open>Progress of a job\<close>

text \<open>The step of the write loop for one node returns no error exactly when each of its
  calls has succeeded: the deletion for a node to delete; for a node to write, the
  streaming write, the deletion of the file it replaces, if there is one, and the
  registration of the new file. What it returns does not depend on the state of the
  job.\<close>

lemma persistNode_steps:
  "(fst (persistNode eng j streams k v i w) = None) =
     (if Action v = Delete
          then deleteFile eng (DataverseKey j) (FileId (DataFile (Metadata (Attributes v)))) = None
          else (\<exists>fs h rh n d.
                  streams k = Some fs
                \<and> write_stream eng (DataverseKey j) fs (generateStorageIdentifier (cfg eng) (fileNames eng i))
                      (PersistentId j) (defaultHash (cfg eng)) (RemoteHashType (Attributes v)) k
                      (Filesize (DataFile (Metadata (Attributes v)))) = (Inr (h, rh, n), d)
                \<and> (FileId (DataFile (Metadata (Attributes v))) = 0
                     \<or> deleteFile eng (DataverseKey j) (FileId (DataFile (Metadata (Attributes v)))) = None)
                \<and> addFiles eng (DataverseKey j) (PersistentId j)
                      \<lparr>jsonStorageIdentifier = generateStorageIdentifier (cfg eng) (fileNames eng i),
                       jsonFileName = Filename (DataFile (Metadata (Attributes v))),
                       jsonDirectoryLabel =
                         (if DirectoryLabel (Metadata (Attributes v)) = [] then None
                          else Some (DirectoryLabel (Metadata (Attributes v)))),
                       jsonMimeType = ''application/octet-stream'',
                       jsonChecksum = \<lparr>ChecksumType = defaultHash (cfg eng),
                                       ChecksumValue = Sprintf_x h\<rparr>\<rparr> = None))"
proof (cases "Action v = Delete")
  case True
  then show ?thesis
    by (simp add: persistNode_def Let_def split: option.splits)
next
  case False
  show ?thesis
  proof (cases "streams k")
    case None
    with False show ?thesis by (simp add: persistNode_def Let_def)
  next
    case (Some fs)
    obtain res d where ws: "write_stream eng (DataverseKey j) fs (generateStorageIdentifier (cfg eng) (fileNames eng i))
        (PersistentId j) (defaultHash (cfg eng)) (RemoteHashType (Attributes v)) k
        (Filesize (DataFile (Metadata (Attributes v)))) = (res, d)"
      by (cases "write_stream eng (DataverseKey j) fs (generateStorageIdentifier (cfg eng) (fileNames eng i))
        (PersistentId j) (defaultHash (cfg eng)) (RemoteHashType (Attributes v)) k
        (Filesize (DataFile (Metadata (Attributes v))))")
    show ?thesis
    proof (cases res)
      case (Inl e)
      with False Some ws show ?thesis by (simp add: persistNode_def Let_def)
    next
      case (Inr t)
      obtain h rh n where t: "t = (h, rh, n)" by (cases t)
      with False Some ws Inr show ?thesis
        by (simp add: persistNode_def Let_def split: option.splits)
    qed
  qed
qed

lemma persistNode_fst:
  "fst (persistNode eng j streams k v i a) = fst (persistNode eng j streams k v i b)"
  by (simp add: persistNode_def Let_def split: option.splits sum.splits prod.splits)

text \<open>The write loop removes the nodes of a prefix of its iteration: the nodes before
  which the context was not cancelled and whose step has succeeded. It removes all the
  nodes when it returns no error; when it returns an error, the node after the prefix is
  the one at which the context was cancelled or whose step has failed with that
  error; that node and the nodes after it are not removed.\<close>

lemma persistLoop_steps:
  "persistLoop eng j streams tot nds i w = (r, w') \<Longrightarrow>
   \<exists>n \<le> length nds. residual w' = removed (take n nds) (residual w)
      \<and> (\<forall>m < n. \<not> cancelled eng (i + m)
             \<and> (\<forall>a. fst (persistNode eng j streams (fst (nds ! m)) (snd (nds ! m))
                          (Suc (i + m)) a) = None))
      \<and> (r = None \<longrightarrow> n = length nds)
      \<and> (r \<noteq> None \<longrightarrow> n < length nds
             \<and> (if cancelled eng (i + n) then r = Some Cancelled
                  else \<forall>a. fst (persistNode eng j streams (fst (nds ! n)) (snd (nds ! n))
                               (Suc (i + n)) a) = r))"
proof (induction nds arbitrary: i w)
  case Nil
  then show ?case by (auto simp: removed_def)
next
  case (Cons x nds)
  obtain k v where x: "x = (k, v)" by (cases x)
  show ?case
  proof (cases "cancelled eng i")
    case True
    with Cons.prems x have "w' = w" "r = Some Cancelled" by auto
    with True show ?thesis by (intro exI [of _ 0]) (simp add: removed_def)
  next
    case False
    let ?w1 = "if Suc i mod 10 = 0 \<and> Suc i < tot then flush (PersistentId j) w else w"
    obtain r2 w2 where p: "persistNode eng j streams k v (Suc i) ?w1 = (r2, w2)"
      by (cases "persistNode eng j streams k v (Suc i) ?w1")
    have res2: "residual w2 = (if r2 = None then delete_key k (residual w) else residual w)"
      using persistNode_residual [OF p] by (simp add: flush_residual)
    have any: "fst (persistNode eng j streams k v (Suc i) a) = r2" for a
      using p persistNode_fst [of eng j streams k v "Suc i" a ?w1] by simp
    show ?thesis
    proof (cases r2)
      case None
      with Cons.prems x False p
      have "persistLoop eng j streams tot nds (Suc i) w2 = (r, w')"
        by (simp add: Let_def)
      from Cons.IH [OF this] obtain n where n: "n \<le> length nds"
        "residual w' = removed (take n nds) (residual w2)"
        "\<forall>m < n. \<not> cancelled eng (Suc i + m)
             \<and> (\<forall>a. fst (persistNode eng j streams (fst (nds ! m)) (snd (nds ! m))
                          (Suc (Suc i + m)) a) = None)"
        "r = None \<longrightarrow> n = length nds"
        "r \<noteq> None \<longrightarrow> n < length nds
             \<and> (if cancelled eng (Suc i + n) then r = Some Cancelled
                  else \<forall>a. fst (persistNode eng j streams (fst (nds ! n)) (snd (nds ! n))
                               (Suc (Suc i + n)) a) = r)"
        by blast
      have steps: "\<not> cancelled eng (i + m)
             \<and> (\<forall>a. fst (persistNode eng j streams (fst ((x # nds) ! m)) (snd ((x # nds) ! m))
                          (Suc (i + m)) a) = None)" if "m < Suc n" for m
      proof (cases m)
        case 0
        with False any None x show ?thesis by simp
      next
        case (Suc m')
        with that n(3) show ?thesis by simp
      qed
      show ?thesis
      proof (intro exI [of _ "Suc n"] conjI allI impI)
        show "Suc n \<le> length (x # nds)" using n(1) by simp
        show "residual w' = removed (take (Suc n) (x # nds)) (residual w)"
          using n(2) res2 None x by (simp add: removed_def)
        show "\<not> cancelled eng (i + m)" if "m < Suc n" for m
          using steps [OF that] by simp
        show "fst (persistNode eng j streams (fst ((x # nds) ! m)) (snd ((x # nds) ! m))
                          (Suc (i + m)) a) = None" if "m < Suc n" for m a
          using steps [OF that] by simp
        show "Suc n = length (x # nds)" if "r = None"
          using n(4) that by simp
        show "Suc n < length (x # nds)" if "r \<noteq> None"
          using n(5) that by simp
        show "if cancelled eng (i + Suc n) then r = Some Cancelled
              else \<forall>a. fst (persistNode eng j streams (fst ((x # nds) ! Suc n))
                     (snd ((x # nds) ! Suc n)) (Suc (i + Suc n)) a) = r" if "r \<noteq> None"
          using n(5) that by (simp cong: if_cong)
      qed
    next
      case (Some err)
      with Cons.prems x False p have "w' = w2" "r = Some err"
        by (simp_all add: Let_def)
      with res2 Some False any x show ?thesis
        by (intro exI [of _ 0]) (simp add: removed_def)
    qed
  qed
qed

text \<open>\<open>calculateHash\<close> returns no error exactly when the cache already answers for the
  node or the stored file has been hashed without an error.\<close>

lemma calculateHash_steps:
  "(fst (calculateHash eng key pid nd kh) = None) =
     ((\<exists>e. kh (NodeId nd) = Some e
              \<and> LocalHashType e = ChecksumType (Checksum (DataFile (Metadata (Attributes nd))))
              \<and> LocalHashValue e = ChecksumValue (Checksum (DataFile (Metadata (Attributes nd))))
              \<and> RemoteHashes e (RemoteHashType (Attributes nd)) \<noteq> None)
      \<or> snd (fst (doHash eng key pid nd)) = None)"
proof (cases "(\<exists>e. kh (NodeId nd) = Some e
              \<and> LocalHashType e = ChecksumType (Checksum (DataFile (Metadata (Attributes nd))))
              \<and> LocalHashValue e = ChecksumValue (Checksum (DataFile (Metadata (Attributes nd))))
              \<and> RemoteHashes e (RemoteHashType (Attributes nd)) \<noteq> None)")
  case True
  then obtain e where "kh (NodeId nd) = Some e"
      "LocalHashType e = ChecksumType (Checksum (DataFile (Metadata (Attributes nd))))"
      "LocalHashValue e = ChecksumValue (Checksum (DataFile (Metadata (Attributes nd))))"
      "RemoteHashes e (RemoteHashType (Attributes nd)) \<noteq> None"
    by blast
  then have "calculateHash eng key pid nd kh = (None, kh, [])"
    by (rule calculateHash_cached)
  with True show ?thesis by simp
next
  case False
  obtain h er srcs where d: "doHash eng key pid nd = ((h, er), srcs)"
    by (cases "doHash eng key pid nd") auto
  from False have "\<not> ((kh (NodeId nd) \<noteq> None
        \<and> LocalHashType (lookupHashes kh (NodeId nd)) = ChecksumType (Checksum (DataFile (Metadata (Attributes nd))))
        \<and> LocalHashValue (lookupHashes kh (NodeId nd)) = ChecksumValue (Checksum (DataFile (Metadata (Attributes nd)))))
        \<and> RemoteHashes (lookupHashes kh (NodeId nd)) (RemoteHashType (Attributes nd)) \<noteq> None)"
    by (cases "kh (NodeId nd)") (auto simp: lookupHashes_def)
  then have "(fst (calculateHash eng key pid nd kh) = None) = (er = None)"
    using d by (cases er) (simp_all add: calculateHash_def Let_def)
  with False d show ?thesis by auto
qed

text \<open>The rehash loop removes the nodes of a prefix of its iteration: the nodes for which
  \<open>calculateHash\<close>, on the cache that the steps before have left, has returned no
  error. It removes all the nodes when it returns no error; when it returns an error, the
  node after the prefix is the one for which \<open>calculateHash\<close> has returned that error;
  that node and the nodes after it are not removed.\<close>

lemma rehashLoop_steps:
  "rehashLoop eng key pid tot nds i w = (r, w') \<Longrightarrow>
   \<exists>n \<le> length nds. residual w' = removed (take n nds) (residual w)
      \<and> known w' = rehashed eng key pid (take n nds) (known w)
      \<and> (\<forall>m < n. fst (calculateHash eng key pid (snd (nds ! m))
                        (rehashed eng key pid (take m nds) (known w))) = None)
      \<and> (r = None \<longrightarrow> n = length nds)
      \<and> (r \<noteq> None \<longrightarrow> n < length nds
             \<and> fst (calculateHash eng key pid (snd (nds ! n))
                        (rehashed eng key pid (take n nds) (known w))) = r)"
proof (induction nds arbitrary: i w)
  case Nil
  then show ?case by (auto simp: removed_def)
next
  case (Cons x nds)
  obtain k nd where x: "x = (k, nd)" by (cases x)
  obtain r2 kn srcs where c: "calculateHash eng key pid nd (known w) = (r2, kn, srcs)"
    by (cases "calculateHash eng key pid nd (known w)")
  show ?case
  proof (cases r2)
    case None
    let ?w1 = "w\<lparr>known := kn, calls := calls w @ map ReadCall srcs\<rparr>"
    let ?w2 = "if Suc i mod 10 = 0 \<and> Suc i < tot then flush pid ?w1 else ?w1"
    let ?w3 = "?w2\<lparr>residual := delete_key k (residual ?w2)\<rparr>"
    from Cons.prems x c None
    have "rehashLoop eng key pid tot nds (Suc i) ?w3 = (r, w')"
      by (simp add: Let_def)
    from Cons.IH [OF this] obtain n where n: "n \<le> length nds"
      "residual w' = removed (take n nds) (residual ?w3)"
      "known w' = rehashed eng key pid (take n nds) (known ?w3)"
      "\<forall>m < n. fst (calculateHash eng key pid (snd (nds ! m))
                        (rehashed eng key pid (take m nds) (known ?w3))) = None"
      "r = None \<longrightarrow> n = length nds"
      "r \<noteq> None \<longrightarrow> n < length nds
             \<and> fst (calculateHash eng key pid (snd (nds ! n))
                        (rehashed eng key pid (take n nds) (known ?w3))) = r"
      by blast
    have res: "residual ?w3 = delete_key k (residual w)" by (simp add: flush_def)
    have kn: "known ?w3 = kn" by (simp add: flush_def)
    have step: "rehashed eng key pid (take (Suc m) (x # nds)) (known w)
        = rehashed eng key pid (take m nds) kn" for m
      using x c by simp
    have steps: "fst (calculateHash eng key pid (snd ((x # nds) ! m))
                        (rehashed eng key pid (take m (x # nds)) (known w))) = None"
      if "m < Suc n" for m
    proof (cases m)
      case 0
      with x c None show ?thesis by simp
    next
      case (Suc m')
      with that n(4) have "fst (calculateHash eng key pid (snd (nds ! m'))
                        (rehashed eng key pid (take m' nds) kn)) = None"
        by (simp add: kn)
      with Suc show ?thesis by (simp only: step nth_Cons_Suc)
    qed
    show ?thesis
    proof (intro exI [of _ "Suc n"] conjI allI impI)
      show "Suc n \<le> length (x # nds)" using n(1) by simp
      show "residual w' = removed (take (Suc n) (x # nds)) (residual w)"
        using n(2) res x by (simp add: removed_def)
      show "known w' = rehashed eng key pid (take (Suc n) (x # nds)) (known w)"
        using n(3) by (simp only: step kn)
      show "fst (calculateHash eng key pid (snd ((x # nds) ! m))
                        (rehashed eng key pid (take m (x # nds)) (known w))) = None"
        if "m < Suc n" for m
        using steps [OF that] .
      show "Suc n = length (x # nds)" if "r = None"
        using n(5) that by simp
      show "Suc n < length (x # nds)" if "r \<noteq> None"
        using n(6) that by simp
      show "fst (calculateHash eng key pid (snd ((x # nds) ! Suc n))
                        (rehashed eng key pid (take (Suc n) (x # nds)) (known w))) = r"
        if "r \<noteq> None"
        using n(6) that by (simp only: step kn nth_Cons_Suc) simp
    qed
  next
    case (Some err)
    with Cons.prems x c have "w' = w\<lparr>calls := calls w @ map ReadCall srcs\<rparr>" "r = Some err"
      by auto
    with Some c x show ?thesis
      by (intro exI [of _ 0]) (simp add: removed_def)
  qed
qed

text \<open>What \<open>doWork\<close> returns is what the loop of the job has left: for a hash-only job
  that may work on the dataset, the error of the rehash loop and the residual it has
  left; for any other job whose streams and filtered nodes it could get, the residual
  that the write loop over the filtered nodes has left, with the error of the loop or,
  after a loop without an error, of the cancelled context or of the cleanup.\<close>

lemma doWork_rehash:
  assumes "StreamType job = ''hash-only''"
    and "permission eng (DataverseKey job) (PersistentId job) = None"
    and "doWork eng job s = ((out, err), st)"
  shows "err = fst (rehashLoop eng (DataverseKey job) (PersistentId job) (length (WritableNodes job)) (WritableNodes job) 0
               \<lparr>known = getKnownHashes s (PersistentId job), residual = WritableNodes job, store = s,
                 calls = [CheckPermissionCall (DataverseKey job) (PersistentId job)]\<rparr>)
       \<and> out = job\<lparr>WritableNodes := residual (snd (rehashLoop eng (DataverseKey job) (PersistentId job) (length (WritableNodes job)) (WritableNodes job) 0
               \<lparr>known = getKnownHashes s (PersistentId job), residual = WritableNodes job, store = s,
                 calls = [CheckPermissionCall (DataverseKey job) (PersistentId job)]\<rparr>))\<rparr>
       \<and> (\<exists>n \<le> length (WritableNodes job).
              WritableNodes out = removed (take n (WritableNodes job)) (WritableNodes job)
            \<and> (\<forall>m < n. fst (calculateHash eng (DataverseKey job) (PersistentId job) (snd ((WritableNodes job) ! m))
                     (rehashed eng (DataverseKey job) (PersistentId job) (take m (WritableNodes job))
                        (getKnownHashes s (PersistentId job)))) = None)
            \<and> (err = None \<longrightarrow> n = length (WritableNodes job))
            \<and> (err \<noteq> None \<longrightarrow> n < length (WritableNodes job)
                 \<and> fst (calculateHash eng (DataverseKey job) (PersistentId job) (snd ((WritableNodes job) ! n))
                     (rehashed eng (DataverseKey job) (PersistentId job) (take n (WritableNodes job))
                        (getKnownHashes s (PersistentId job)))) = err))"
proof -
  obtain r w' where l: "(rehashLoop eng (DataverseKey job) (PersistentId job) (length (WritableNodes job)) (WritableNodes job) 0
               \<lparr>known = getKnownHashes s (PersistentId job), residual = WritableNodes job, store = s,
                 calls = [CheckPermissionCall (DataverseKey job) (PersistentId job)]\<rparr>) = (r, w')"
    by (cases "(rehashLoop eng (DataverseKey job) (PersistentId job) (length (WritableNodes job)) (WritableNodes job) 0
               \<lparr>known = getKnownHashes s (PersistentId job), residual = WritableNodes job, store = s,
                 calls = [CheckPermissionCall (DataverseKey job) (PersistentId job)]\<rparr>)")
  have eq: "err = r" "out = job\<lparr>WritableNodes := residual w'\<rparr>"
    using assms l by (auto simp: doWork_def doRehash_def)
  from rehashLoop_steps [OF l] obtain n where n: "n \<le> length (WritableNodes job)"
    "residual w' = removed (take n (WritableNodes job)) (WritableNodes job)"
    "\<forall>m < n. fst (calculateHash eng (DataverseKey job) (PersistentId job) (snd ((WritableNodes job) ! m))
                     (rehashed eng (DataverseKey job) (PersistentId job) (take m (WritableNodes job))
                        (getKnownHashes s (PersistentId job)))) = None"
    "r = None \<longrightarrow> n = length (WritableNodes job)"
    "r \<noteq> None \<longrightarrow> n < length (WritableNodes job)
        \<and> fst (calculateHash eng (DataverseKey job) (PersistentId job) (snd ((WritableNodes job) ! n))
                     (rehashed eng (DataverseKey job) (PersistentId job) (take n (WritableNodes job))
                        (getKnownHashes s (PersistentId job)))) = r"
    by auto
  have out: "WritableNodes out = removed (take n (WritableNodes job)) (WritableNodes job)"
    using eq(2) n(2) by simp
  show ?thesis
    unfolding l fst_conv snd_conv
    using eq n(1,3,4,5) out by blast
qed

lemma doWork_write:
  assumes "StreamType job \<noteq> ''hash-only''"
    and "deserialize eng job = Inr ss"
    and "filterRedundant eng job (getKnownHashes s (PersistentId job)) = (Inr ws, cs)"
    and "permission eng (DataverseKey job) (PersistentId job) = None"
    and "doWork eng job s = ((out, err), st)"
  shows "out = job\<lparr>WritableNodes := residual (snd (persistLoop eng (job\<lparr>WritableNodes := ws\<rparr>) ss (length ws) ws 0
               \<lparr>known = getKnownHashes s (PersistentId job), residual = ws, store = s,
                 calls = [CheckPermissionCall (DataverseKey job) (PersistentId job)]\<rparr>))\<rparr>
       \<and> err = (case fst (persistLoop eng (job\<lparr>WritableNodes := ws\<rparr>) ss (length ws) ws 0
               \<lparr>known = getKnownHashes s (PersistentId job), residual = ws, store = s,
                 calls = [CheckPermissionCall (DataverseKey job) (PersistentId job)]\<rparr>) of
                  Some e \<Rightarrow> Some e
                | None \<Rightarrow> if cancelled eng (length ws) then Some Cancelled
                          else cleanStorage eng (DataverseKey job) (PersistentId job))
       \<and> (\<exists>n \<le> length ws.
              WritableNodes out = removed (take n ws) ws
            \<and> (\<forall>m < n. \<not> cancelled eng m
                 \<and> (\<forall>a. fst (persistNode eng (job\<lparr>WritableNodes := ws\<rparr>) ss
                              (fst (ws ! m)) (snd (ws ! m)) (Suc m) a) = None))
            \<and> (err = None \<longrightarrow> n = length ws \<and> \<not> cancelled eng (length ws)
                 \<and> cleanStorage eng (DataverseKey job) (PersistentId job) = None))"
proof -
  obtain r w' where l: "(persistLoop eng (job\<lparr>WritableNodes := ws\<rparr>) ss (length ws) ws 0
               \<lparr>known = getKnownHashes s (PersistentId job), residual = ws, store = s,
                 calls = [CheckPermissionCall (DataverseKey job) (PersistentId job)]\<rparr>) = (r, w')"
    by (cases "(persistLoop eng (job\<lparr>WritableNodes := ws\<rparr>) ss (length ws) ws 0
               \<lparr>known = getKnownHashes s (PersistentId job), residual = ws, store = s,
                 calls = [CheckPermissionCall (DataverseKey job) (PersistentId job)]\<rparr>)")
  have eq: "out = job\<lparr>WritableNodes := residual w'\<rparr>"
    "err = (case r of Some e \<Rightarrow> Some e
            | None \<Rightarrow> if cancelled eng (length ws) then Some Cancelled
                      else cleanStorage eng (DataverseKey job) (PersistentId job))"
    using assms l
    by (auto simp: doWork_def doPersistNodeMap_def Let_def split: option.splits if_splits)
  from persistLoop_steps [OF l] obtain n where n: "n \<le> length ws"
    "residual w' = removed (take n ws) ws"
    "\<forall>m < n. \<not> cancelled eng m
         \<and> (\<forall>a. fst (persistNode eng (job\<lparr>WritableNodes := ws\<rparr>) ss
                      (fst (ws ! m)) (snd (ws ! m)) (Suc m) a) = None)"
    "r = None \<longrightarrow> n = length ws"
    by auto
  have "err = None \<longrightarrow> n = length ws \<and> \<not> cancelled eng (length ws)
                 \<and> cleanStorage eng (DataverseKey job) (PersistentId job) = None"
    using eq(2) n(4) by (auto split: option.splits if_splits)
  moreover have "WritableNodes out = removed (take n ws) ws"
    using eq(1) n(2) by simp
  ultimately show ?thesis
    unfolding l fst_conv snd_conv
    using eq n(1,3) by blast
qed

text \<open>
  Claim C3. A job that a worker executes comes from the queue, where \<open>addJob\<close> puts
  only jobs with nodes (\<open>queue_ok\<close>, which holds of the empty store and is kept by
  \<open>addJob\<close>, by \<open>popJob\<close> and by the turn of a worker). For such a job, \<open>doWork\<close>
  returns an error or a residual with fewer nodes than the job had. The residual and the
  error that \<open>doWork\<close> returns are those of the loop of the job: of the rehash loop over
  the job's nodes for a hash-only job, of the write loop over the filtered nodes for any
  other job (after a write loop without an error, the error is that of the cancelled
  context or of the cleanup).

  The step of the write loop for a node returns no error exactly when all of its calls
  have succeeded: the deletion in the dataset for a node to delete; for a node to write,
  the streaming write of its stream, the deletion of the file it replaces if the node
  has one, and the registration of the new file. The step removes the node from the
  residual exactly when it returns no error. The write loop removes the nodes of a prefix
  \<open>take n nds\<close> of its iteration; before each of them the context was not cancelled, and
  the step of each has returned no error. If the loop returns no error, the prefix is the
  whole iteration; if it returns an error, the node after the prefix is the one at which
  the context was cancelled or whose step has returned that error, and neither it nor any
  node after it is removed.

  The step of the rehash loop, \<open>calculateHash\<close>, returns no error exactly when the
  cache answers for the node or the stored file has been hashed without an error. The
  rehash loop removes the nodes of a prefix of its iteration, for each of which
  \<open>calculateHash\<close> has returned no error on the cache that the steps before it have
  left (\<open>rehashed\<close>); the prefix is the whole iteration if the loop returns no error, and
  otherwise the node after it is the one for which \<open>calculateHash\<close> has returned the
  error of the loop, and neither it nor any node after it is removed.
\<close>

theorem residual_progress:
  assumes "queue_ok s" and "popJob s = (Some job, s1)" and "doWork eng job s1 = ((out, err), st)"
  shows "(err \<noteq> None \<or> length (WritableNodes out) < length (WritableNodes job))
   \<and> (StreamType job = ''hash-only''
       \<and> permission eng (DataverseKey job) (PersistentId job) = None
     \<longrightarrow> err = fst (rehashLoop eng (DataverseKey job) (PersistentId job) (length (WritableNodes job)) (WritableNodes job) 0
               \<lparr>known = getKnownHashes s1 (PersistentId job), residual = WritableNodes job, store = s1,
                 calls = [CheckPermissionCall (DataverseKey job) (PersistentId job)]\<rparr>)
       \<and> out = job\<lparr>WritableNodes := residual (snd (rehashLoop eng (DataverseKey job) (PersistentId job) (length (WritableNodes job)) (WritableNodes job) 0
               \<lparr>known = getKnownHashes s1 (PersistentId job), residual = WritableNodes job, store = s1,
                 calls = [CheckPermissionCall (DataverseKey job) (PersistentId job)]\<rparr>))\<rparr>
       \<and> (\<exists>n \<le> length (WritableNodes job).
              WritableNodes out = removed (take n (WritableNodes job)) (WritableNodes job)
            \<and> (\<forall>m < n. fst (calculateHash eng (DataverseKey job) (PersistentId job) (snd ((WritableNodes job) ! m))
                     (rehashed eng (DataverseKey job) (PersistentId job) (take m (WritableNodes job))
                        (getKnownHashes s1 (PersistentId job)))) = None)
            \<and> (err = None \<longrightarrow> n = length (WritableNodes job))
            \<and> (err \<noteq> None \<longrightarrow> n < length (WritableNodes job)
                 \<and> fst (calculateHash eng (DataverseKey job) (PersistentId job) (snd ((WritableNodes job) ! n))
                     (rehashed eng (DataverseKey job) (PersistentId job) (take n (WritableNodes job))
                        (getKnownHashes s1 (PersistentId job)))) = err)))
   \<and> (StreamType job \<noteq> ''hash-only''
       \<and> deserialize eng job = Inr ss
       \<and> filterRedundant eng job (getKnownHashes s1 (PersistentId job)) = (Inr ws, cs)
       \<and> permission eng (DataverseKey job) (PersistentId job) = None
     \<longrightarrow> out = job\<lparr>WritableNodes := residual (snd (persistLoop eng (job\<lparr>WritableNodes := ws\<rparr>) ss (length ws) ws 0
               \<lparr>known = getKnownHashes s1 (PersistentId job), residual = ws, store = s1,
                 calls = [CheckPermissionCall (DataverseKey job) (PersistentId job)]\<rparr>))\<rparr>
       \<and> err = (case fst (persistLoop eng (job\<lparr>WritableNodes := ws\<rparr>) ss (length ws) ws 0
               \<lparr>known = getKnownHashes s1 (PersistentId job), residual = ws, store = s1,
                 calls = [CheckPermissionCall (DataverseKey job) (PersistentId job)]\<rparr>) of
                  Some e \<Rightarrow> Some e
                | None \<Rightarrow> if cancelled eng (length ws) then Some Cancelled
                          else cleanStorage eng (DataverseKey job) (PersistentId job))
       \<and> (\<exists>n \<le> length ws.
              WritableNodes out = removed (take n ws) ws
            \<and> (\<forall>m < n. \<not> cancelled eng m
                 \<and> (\<forall>a. fst (persistNode eng (job\<lparr>WritableNodes := ws\<rparr>) ss
                              (fst (ws ! m)) (snd (ws ! m)) (Suc m) a) = None))
            \<and> (err = None \<longrightarrow> n = length ws \<and> \<not> cancelled eng (length ws)
                 \<and> cleanStorage eng (DataverseKey job) (PersistentId job) = None)))
   \<and> ((fst (persistNode eng j streams k v i w) = None) =
     (if Action v = Delete
          then deleteFile eng (DataverseKey j) (FileId (DataFile (Metadata (Attributes v)))) = None
          else (\<exists>fs h rh n d.
                  streams k = Some fs
                \<and> write_stream eng (DataverseKey j) fs (generateStorageIdentifier (cfg eng) (fileNames eng i))
                      (PersistentId j) (defaultHash (cfg eng)) (RemoteHashType (Attributes v)) k
                      (Filesize (DataFile (Metadata (Attributes v)))) = (Inr (h, rh, n), d)
                \<and> (FileId (DataFile (Metadata (Attributes v))) = 0
                     \<or> deleteFile eng (DataverseKey j) (FileId (DataFile (Metadata (Attributes v)))) = None)
                \<and> addFiles eng (DataverseKey j) (PersistentId j)
                      \<lparr>jsonStorageIdentifier = generateStorageIdentifier (cfg eng) (fileNames eng i),
                       jsonFileName = Filename (DataFile (Metadata (Attributes v))),
                       jsonDirectoryLabel =
                         (if DirectoryLabel (Metadata (Attributes v)) = [] then None
                          else Some (DirectoryLabel (Metadata (Attributes v)))),
                       jsonMimeType = ''application/octet-stream'',
                       jsonChecksum = \<lparr>ChecksumType = defaultHash (cfg eng),
                                       ChecksumValue = Sprintf_x h\<rparr>\<rparr> = None)))
   \<and> (persistNode eng j streams k v i w = (r, w')
     \<longrightarrow> residual w' = (if r = None then delete_key k (residual w) else residual w))
   \<and> (persistLoop eng j streams tot nds i w = (r, w')
     \<longrightarrow> (\<exists>n \<le> length nds. residual w' = removed (take n nds) (residual w)
          \<and> (\<forall>m < n. \<not> cancelled eng (i + m)
                 \<and> (\<forall>a. fst (persistNode eng j streams (fst (nds ! m)) (snd (nds ! m))
                              (Suc (i + m)) a) = None))
          \<and> (r = None \<longrightarrow> n = length nds)
          \<and> (r \<noteq> None \<longrightarrow> n < length nds
                 \<and> (if cancelled eng (i + n) then r = Some Cancelled
                      else \<forall>a. fst (persistNode eng j streams (fst (nds ! n)) (snd (nds ! n))
                                   (Suc (i + n)) a) = r))))
   \<and> ((fst (calculateHash eng key pid nd kh) = None) =
     ((\<exists>e. kh (NodeId nd) = Some e
              \<and> LocalHashType e = ChecksumType (Checksum (DataFile (Metadata (Attributes nd))))
              \<and> LocalHashValue e = ChecksumValue (Checksum (DataFile (Metadata (Attributes nd))))
              \<and> RemoteHashes e (RemoteHashType (Attributes nd)) \<noteq> None)
      \<or> snd (fst (doHash eng key pid nd)) = None))
   \<and> (rehashLoop eng key pid tot nds i w = (r, w')
     \<longrightarrow> (\<exists>n \<le> length nds. residual w' = removed (take n nds) (residual w)
          \<and> known w' = rehashed eng key pid (take n nds) (known w)
          \<and> (\<forall>m < n. fst (calculateHash eng key pid (snd (nds ! m))
                            (rehashed eng key pid (take m nds) (known w))) = None)
          \<and> (r = None \<longrightarrow> n = length nds)
          \<and> (r \<noteq> None \<longrightarrow> n < length nds
                 \<and> fst (calculateHash eng key pid (snd (nds ! n))
                            (rehashed eng key pid (take n nds) (known w))) = r)))"
proof -
  have ne: "WritableNodes job \<noteq> []"
    using assms(1,2) by (rule popJob_nonempty)
  have 1: "err \<noteq> None \<or> length (WritableNodes out) < length (WritableNodes job)"
  proof (cases err)
    case None
    with assms(3) have "WritableNodes out = []" by (simp add: doWork_done)
    with ne show ?thesis by simp
  next
    case (Some e)
    then show ?thesis by simp
  qed
  have 2: "(StreamType job = ''hash-only''
       \<and> permission eng (DataverseKey job) (PersistentId job) = None
     \<longrightarrow> err = fst (rehashLoop eng (DataverseKey job) (PersistentId job) (length (WritableNodes job)) (WritableNodes job) 0
               \<lparr>known = getKnownHashes s1 (PersistentId job), residual = WritableNodes job, store = s1,
                 calls = [CheckPermissionCall (DataverseKey job) (PersistentId job)]\<rparr>)
       \<and> out = job\<lparr>WritableNodes := residual (snd (rehashLoop eng (DataverseKey job) (PersistentId job) (length (WritableNodes job)) (WritableNodes job) 0
               \<lparr>known = getKnownHashes s1 (PersistentId job), residual = WritableNodes job, store = s1,
                 calls = [CheckPermissionCall (DataverseKey job) (PersistentId job)]\<rparr>))\<rparr>
       \<and> (\<exists>n \<le> length (WritableNodes job).
              WritableNodes out = removed (take n (WritableNodes job)) (WritableNodes job)
            \<and> (\<forall>m < n. fst (calculateHash eng (DataverseKey job) (PersistentId job) (snd ((WritableNodes job) ! m))
                     (rehashed eng (DataverseKey job) (PersistentId job) (take m (WritableNodes job))
                        (getKnownHashes s1 (PersistentId job)))) = None)
            \<and> (err = None \<longrightarrow> n = length (WritableNodes job))
            \<and> (err \<noteq> None \<longrightarrow> n < length (WritableNodes job)
                 \<and> fst (calculateHash eng (DataverseKey job) (PersistentId job) (snd ((WritableNodes job) ! n))
                     (rehashed eng (DataverseKey job) (PersistentId job) (take n (WritableNodes job))
                        (getKnownHashes s1 (PersistentId job)))) = err)))"
    using doWork_rehash [of job eng s1 out err st] assms(3) by blast
  have 3: "(StreamType job \<noteq> ''hash-only''
       \<and> deserialize eng job = Inr ss
       \<and> filterRedundant eng job (getKnownHashes s1 (PersistentId job)) = (Inr ws, cs)
       \<and> permission eng (DataverseKey job) (PersistentId job) = None
     \<longrightarrow> out = job\<lparr>WritableNodes := residual (snd (persistLoop eng (job\<lparr>WritableNodes := ws\<rparr>) ss (length ws) ws 0
               \<lparr>known = getKnownHashes s1 (PersistentId job), residual = ws, store = s1,
                 calls = [CheckPermissionCall (DataverseKey job) (PersistentId job)]\<rparr>))\<rparr>
       \<and> err = (case fst (persistLoop eng (job\<lparr>WritableNodes := ws\<rparr>) ss (length ws) ws 0
               \<lparr>known = getKnownHashes s1 (PersistentId job), residual = ws, store = s1,
                 calls = [CheckPermissionCall (DataverseKey job) (PersistentId job)]\<rparr>) of
                  Some e \<Rightarrow> Some e
                | None \<Rightarrow> if cancelled eng (length ws) then Some Cancelled
                          else cleanStorage eng (DataverseKey job) (PersistentId job))
       \<and> (\<exists>n \<le> length ws.
              WritableNodes out = removed (take n ws) ws
            \<and> (\<forall>m < n. \<not> cancelled eng m
                 \<and> (\<forall>a. fst (persistNode eng (job\<lparr>WritableNodes := ws\<rparr>) ss
                              (fst (ws ! m)) (snd (ws ! m)) (Suc m) a) = None))
            \<and> (err = None \<longrightarrow> n = length ws \<and> \<not> cancelled eng (length ws)
                 \<and> cleanStorage eng (DataverseKey job) (PersistentId job) = None)))"
    using doWork_write [of job eng ss s1 ws cs out err st] assms(3) by blast
  have 4: "((fst (persistNode eng j streams k v i w) = None) =
     (if Action v = Delete
          then deleteFile eng (DataverseKey j) (FileId (DataFile (Metadata (Attributes v)))) = None
          else (\<exists>fs h rh n d.
                  streams k = Some fs
                \<and> write_stream eng (DataverseKey j) fs (generateStorageIdentifier (cfg eng) (fileNames eng i))
                      (PersistentId j) (defaultHash (cfg eng)) (RemoteHashType (Attributes v)) k
                      (Filesize (DataFile (Metadata (Attributes v)))) = (Inr (h, rh, n), d)
                \<and> (FileId (DataFile (Metadata (Attributes v))) = 0
                     \<or> deleteFile eng (DataverseKey j) (FileId (DataFile (Metadata (Attributes v)))) = None)
                \<and> addFiles eng (DataverseKey j) (PersistentId j)
                      \<lparr>jsonStorageIdentifier = generateStorageIdentifier (cfg eng) (fileNames eng i),
                       jsonFileName = Filename (DataFile (Metadata (Attributes v))),
                       jsonDirectoryLabel =
                         (if DirectoryLabel (Metadata (Attributes v)) = [] then None
                          else Some (DirectoryLabel (Metadata (Attributes v)))),
                       jsonMimeType = ''application/octet-stream'',
                       jsonChecksum = \<lparr>ChecksumType = defaultHash (cfg eng),
                                       ChecksumValue = Sprintf_x h\<rparr>\<rparr> = None)))"
    by (rule persistNode_steps)
  have 5: "(persistNode eng j streams k v i w = (r, w')
     \<longrightarrow> residual w' = (if r = None then delete_key k (residual w) else residual w))"
    using persistNode_residual [of eng j streams k v i w r w'] by blast
  have 6: "(persistLoop eng j streams tot nds i w = (r, w')
     \<longrightarrow> (\<exists>n \<le> length nds. residual w' = removed (take n nds) (residual w)
          \<and> (\<forall>m < n. \<not> cancelled eng (i + m)
                 \<and> (\<forall>a. fst (persistNode eng j streams (fst (nds ! m)) (snd (nds ! m))
                              (Suc (i + m)) a) = None))
          \<and> (r = None \<longrightarrow> n = length nds)
          \<and> (r \<noteq> None \<longrightarrow> n < length nds
                 \<and> (if cancelled eng (i + n) then r = Some Cancelled
                      else \<forall>a. fst (persistNode eng j streams (fst (nds ! n)) (snd (nds ! n))
                                   (Suc (i + n)) a) = r))))"
    using persistLoop_steps [of eng j streams tot nds i w r w'] by blast
  have 7: "((fst (calculateHash eng key pid nd kh) = None) =
     ((\<exists>e. kh (NodeId nd) = Some e
              \<and> LocalHashType e = ChecksumType (Checksum (DataFile (Metadata (Attributes nd))))
              \<and> LocalHashValue e = ChecksumValue (Checksum (DataFile (Metadata (Attributes nd))))
              \<and> RemoteHashes e (RemoteHashType (Attributes nd)) \<noteq> None)
      \<or> snd (fst (doHash eng key pid nd)) = None))"
    by (rule calculateHash_steps)
  have 8: "(rehashLoop eng key pid tot nds i w = (r, w')
     \<longrightarrow> (\<exists>n \<le> length nds. residual w' = removed (take n nds) (residual w)
          \<and> known w' = rehashed eng key pid (take n nds) (known w)
          \<and> (\<forall>m < n. fst (calculateHash eng key pid (snd (nds ! m))
                            (rehashed eng key pid (take m nds) (known w))) = None)
          \<and> (r = None \<longrightarrow> n = length nds)
          \<and> (r \<noteq> None \<longrightarrow> n < length nds
                 \<and> fst (calculateHash eng key pid (snd (nds ! n))
                            (rehashed eng key pid (take n nds) (known w))) = r)))"
    using rehashLoop_steps [of eng key pid tot nds i w r w'] by blast
  from 1 2 3 4 5 6 7 8 show ?thesis by (intro conjI)
qed

theorem residual_progress_witness:
  "queue_ok (snd (AddJob example_job empty_store))
   \<and> fst (popJob (snd (AddJob example_job empty_store))) = Some example_job
   \<and> snd (fst (doWork example_engine example_job (snd (popJob (snd (AddJob example_job empty_store)))))) = None
   \<and> length (WritableNodes (fst (fst (doWork example_engine example_job (snd (popJob (snd (AddJob example_job empty_store))))))))
       < length (WritableNodes example_job)
   \<and> fst (fst (doWork example_engine example_job (snd (popJob (snd (AddJob example_job empty_store))))))
       = example_job\<lparr>WritableNodes := residual (snd (persistLoop example_engine
                (example_job\<lparr>WritableNodes := WritableNodes example_job\<rparr>)
                (\<lambda>k. Some \<lparr>openErr = None, script = [(''hel'', None), (''lo'', Some EOF)]\<rparr>)
                (length (WritableNodes example_job)) (WritableNodes example_job) 0
                \<lparr>known = getKnownHashes (snd (popJob (snd (AddJob example_job empty_store)))) (PersistentId example_job),
                 residual = WritableNodes example_job,
                 store = snd (popJob (snd (AddJob example_job empty_store))),
                 calls = [CheckPermissionCall (DataverseKey example_job)
                            (PersistentId example_job)]\<rparr>))\<rparr>
   \<and> Action (example_node ''a.txt'' 0 New) = New
   \<and> fst (persistNode example_engine example_job (\<lambda>k. Some \<lparr>openErr = None, script = [(''hel'', None), (''lo'', Some EOF)]\<rparr>)
          ''a.txt'' (example_node ''a.txt'' 0 New) 1
          \<lparr>known = Map.empty, residual = WritableNodes example_job, store = empty_store,
           calls = []\<rparr>) = None
   \<and> (\<exists>fs h rh n d.
          (\<lambda>k. Some \<lparr>openErr = None, script = [(''hel'', None), (''lo'', Some EOF)]\<rparr>) ''a.txt'' = Some fs
        \<and> write_stream example_engine (DataverseKey example_job) fs
              (generateStorageIdentifier (cfg example_engine) (fileNames example_engine 1))
              (PersistentId example_job) (defaultHash (cfg example_engine))
              (RemoteHashType (Attributes (example_node ''a.txt'' 0 New))) ''a.txt''
              (Filesize (DataFile (Metadata (Attributes (example_node ''a.txt'' 0 New))))) = (Inr (h, rh, n), d)
        \<and> (FileId (DataFile (Metadata (Attributes (example_node ''a.txt'' 0 New)))) = 0
             \<or> deleteFile example_engine (DataverseKey example_job)
                  (FileId (DataFile (Metadata (Attributes (example_node ''a.txt'' 0 New))))) = None)
        \<and> addFiles example_engine (DataverseKey example_job) (PersistentId example_job)
              \<lparr>jsonStorageIdentifier =
                 generateStorageIdentifier (cfg example_engine) (fileNames example_engine 1),
               jsonFileName = Filename (DataFile (Metadata (Attributes (example_node ''a.txt'' 0 New)))),
               jsonDirectoryLabel =
                 (if DirectoryLabel (Metadata (Attributes (example_node ''a.txt'' 0 New))) = [] then None
                  else Some (DirectoryLabel (Metadata (Attributes (example_node ''a.txt'' 0 New))))),
               jsonMimeType = ''application/octet-stream'',
               jsonChecksum = \<lparr>ChecksumType = defaultHash (cfg example_engine),
                               ChecksumValue = Sprintf_x h\<rparr>\<rparr> = None)"
proof -
  let ?s = "snd (AddJob example_job empty_store)"
  let ?s1 = "snd (popJob ?s)"
  let ?w = "doWork example_engine example_job ?s1"
  let ?ss = "(\<lambda>k. Some \<lparr>openErr = None, script = [(''hel'', None), (''lo'', Some EOF)]\<rparr>)"
  let ?a = "\<lparr>known = Map.empty, residual = WritableNodes example_job, store = empty_store,
           calls = []\<rparr>"
  have "AddJob example_job empty_store = addJob example_job True empty_store"
    by (simp add: AddJob_def example_job_def)
  then have q: "queue_ok ?s"
    using queue_ok_addJob [OF queue_ok_empty, of example_job True] by simp
  have p: "popJob ?s = (Some example_job, ?s1)"
    by (simp add: queued_example popJob_def RPop_def live_def)
  have kh: "getKnownHashes ?s1 ''doi:10.5072/FK2/ABC'' = Map.empty"
    by (simp add: queued_example popJob_def RPop_def live_def getKnownHashes_def hashesKey_def
        lockKey_def)
  then have e: "snd (fst ?w) = None"
    by (simp add: doWork_example)
  have w: "?w = ((fst (fst ?w), snd (fst ?w)), snd ?w)" by simp
  note th = residual_progress [OF q p w, where ss = ?ss and ws = "WritableNodes example_job"
      and cs = "[]" and j = example_job and streams = ?ss and k = "''a.txt''"
      and v = "example_node ''a.txt'' 0 New" and i = 1 and w = ?a]
  have less: "length (WritableNodes (fst (fst ?w))) < length (WritableNodes example_job)"
    using th [THEN conjunct1] e by blast
  have job: "StreamType example_job \<noteq> ''hash-only''"
    "PersistentId example_job = ''doi:10.5072/FK2/ABC''"
    "WritableNodes example_job = [(''a.txt'', example_node ''a.txt'' 0 New)]"
    by (simp_all add: example_job_def)
  have f: "filterRedundant example_engine example_job
      (getKnownHashes ?s1 (PersistentId example_job)) = (Inr (WritableNodes example_job), [])"
    by (simp only: job(2) kh filterRedundant_example job(3))
  have perm: "permission example_engine (DataverseKey example_job) (PersistentId example_job) = None"
    by (simp add: example_engine_def)
  have link: "fst (fst ?w)
       = example_job\<lparr>WritableNodes := residual (snd (persistLoop example_engine
                (example_job\<lparr>WritableNodes := WritableNodes example_job\<rparr>)
                (\<lambda>k. Some \<lparr>openErr = None, script = [(''hel'', None), (''lo'', Some EOF)]\<rparr>)
                (length (WritableNodes example_job)) (WritableNodes example_job) 0
                \<lparr>known = getKnownHashes (snd (popJob (snd (AddJob example_job empty_store)))) (PersistentId example_job),
                 residual = WritableNodes example_job,
                 store = snd (popJob (snd (AddJob example_job empty_store))),
                 calls = [CheckPermissionCall (DataverseKey example_job)
                            (PersistentId example_job)]\<rparr>))\<rparr>"
    using th [THEN conjunct2, THEN conjunct2, THEN conjunct1, rule_format, THEN conjunct1]
      job(1) example_streams [of example_job] f perm
    by blast
  have nd: "Action (example_node ''a.txt'' 0 New) = New"
    by (simp add: example_node_def)
  have ok: "fst (persistNode example_engine example_job ?ss ''a.txt'' (example_node ''a.txt'' 0 New) 1 ?a) = None"
    by (simp add: persistNode_write_example)
  have step: "(\<exists>fs h rh n d.
          (\<lambda>k. Some \<lparr>openErr = None, script = [(''hel'', None), (''lo'', Some EOF)]\<rparr>) ''a.txt'' = Some fs
        \<and> write_stream example_engine (DataverseKey example_job) fs
              (generateStorageIdentifier (cfg example_engine) (fileNames example_engine 1))
              (PersistentId example_job) (defaultHash (cfg example_engine))
              (RemoteHashType (Attributes (example_node ''a.txt'' 0 New))) ''a.txt''
              (Filesize (DataFile (Metadata (Attributes (example_node ''a.txt'' 0 New))))) = (Inr (h, rh, n), d)
        \<and> (FileId (DataFile (Metadata (Attributes (example_node ''a.txt'' 0 New)))) = 0
             \<or> deleteFile example_engine (DataverseKey example_job)
                  (FileId (DataFile (Metadata (Attributes (example_node ''a.txt'' 0 New))))) = None)
        \<and> addFiles example_engine (DataverseKey example_job) (PersistentId example_job)
              \<lparr>jsonStorageIdentifier =
                 generateStorageIdentifier (cfg example_engine) (fileNames example_engine 1),
               jsonFileName = Filename (DataFile (Metadata (Attributes (example_node ''a.txt'' 0 New)))),
               jsonDirectoryLabel =
                 (if DirectoryLabel (Metadata (Attributes (example_node ''a.txt'' 0 New))) = [] then None
                  else Some (DirectoryLabel (Metadata (Attributes (example_node ''a.txt'' 0 New))))),
               jsonMimeType = ''application/octet-stream'',
               jsonChecksum = \<lparr>ChecksumType = defaultHash (cfg example_engine),
                               ChecksumValue = Sprintf_x h\<rparr>\<rparr> = None)"
    using th [THEN conjunct2, THEN conjunct2, THEN conjunct2, THEN conjunct1] ok nd
    by simp
  have "fst (popJob ?s) = Some example_job"
    using p by (metis fst_conv)
  with q e less link nd ok step show ?thesis
    by (intro conjI)
qed

subsection \<open>The comparator\<close>

lemma marker_values: "Written \<noteq> Deleted" "Written \<noteq> []" "Deleted \<noteq> []"
  by (simp_all add: Written_def Deleted_def)

lemma markerKey_inj: "(markerKey pid k = markerKey pid k') = (k = k')"
  by (simp add: markerKey_def)

lemma localRehashNode_reads_marker:
  "GetVal s1 (markerKey pid k) = GetVal s2 (markerKey pid k) \<Longrightarrow>
   fst (localRehashNode knownHashes pid k nd s1) = fst (localRehashNode knownHashes pid k nd s2)"
  by (simp add: localRehashNode_def Let_def split: prod.splits)

lemma GetVal_Del_other:
  assumes "key \<noteq> key'"
  shows "GetVal (Del key' s) key = GetVal s key"
proof -
  have "live (Del key' s) key = live s key"
    using assms by (intro live_other) (simp_all add: Del_def)
  then show ?thesis by (simp add: GetVal_def)
qed

lemma localRehashNode_other_marker:
  "k \<noteq> k' \<Longrightarrow>
   GetVal (snd (localRehashNode knownHashes pid k' nd' s)) (markerKey pid k)
     = GetVal s (markerKey pid k)"
  by (simp add: localRehashNode_def Let_def GetVal_Del_other markerKey_inj split: prod.splits)

text \<open>With distinct keys, the loop of the comparator gives every node what the loop's body
  gives it in the store the comparator started with.\<close>

lemma localRehashLoop_each:
  assumes "distinct (map fst nds)"
  shows "fst (localRehashLoop knownHashes pid nds (jn, res) s) =
     (jn @ filter (\<lambda>(k, nd). snd (fst (localRehashNode knownHashes pid k nd s))) nds,
      res @ map (\<lambda>(k, nd). (k, fst (fst (localRehashNode knownHashes pid k nd s)))) nds)"
  using assms
proof (induction nds arbitrary: jn res s)
  case Nil
  show ?case by simp
next
  case (Cons x nds)
  obtain k nd where x: "x = (k, nd)" by (cases x)
  obtain nd' missed s' where n: "localRehashNode knownHashes pid k nd s = ((nd', missed), s')"
    by (cases "localRehashNode knownHashes pid k nd s") auto
  have same: "fst (localRehashNode knownHashes pid k' n' s')
      = fst (localRehashNode knownHashes pid k' n' s)" if "(k', n') \<in> set nds" for k' n'
  proof -
    from that Cons.prems x have "k' \<noteq> k" by force
    then have "GetVal s' (markerKey pid k') = GetVal s (markerKey pid k')"
      using localRehashNode_other_marker [of k' k knownHashes pid nd s] n by simp
    then show ?thesis by (rule localRehashNode_reads_marker)
  qed
  have f: "filter (\<lambda>(k, nd). snd (fst (localRehashNode knownHashes pid k nd s'))) nds
      = filter (\<lambda>(k, nd). snd (fst (localRehashNode knownHashes pid k nd s))) nds"
    by (rule filter_cong) (auto simp: same)
  have m: "map (\<lambda>(k, nd). (k, fst (fst (localRehashNode knownHashes pid k nd s')))) nds
      = map (\<lambda>(k, nd). (k, fst (fst (localRehashNode knownHashes pid k nd s)))) nds"
    by (rule map_cong) (auto simp: same)
  from Cons.prems have "distinct (map fst nds)" by simp
  from Cons.IH [OF this] show ?case
    by (simp add: x n f m)
qed

lemma comparator_each:
  assumes "distinct (map fst nds)" and "(k, nd) \<in> set nds"
    and "localRehashNode (getKnownHashes s pid) pid k nd s = ((nd', missed), s')"
  shows "(k, nd') \<in> set (fst (fst (localRehashToMatchRemoteHashType key pid nds addJobs s)))
       \<and> (missed \<longrightarrow> snd (fst (localRehashToMatchRemoteHashType key pid nds addJobs s)))"
proof -
  let ?kh = "getKnownHashes s pid"
  obtain jn res s1 where l: "localRehashLoop ?kh pid nds ([], []) s = ((jn, res), s1)"
    by (cases "localRehashLoop ?kh pid nds ([], []) s") auto
  from localRehashLoop_each [OF assms(1), of ?kh pid "[]" "[]" s] l
  have jn: "jn = filter (\<lambda>(k, nd). snd (fst (localRehashNode ?kh pid k nd s))) nds"
    and res: "res = map (\<lambda>(k, nd). (k, fst (fst (localRehashNode ?kh pid k nd s)))) nds"
    by simp_all
  have "(k, nd') \<in> set res"
    using assms(2,3) unfolding res by force
  moreover have "missed \<longrightarrow> jn \<noteq> []"
  proof
    assume missed
    with assms(2,3) have "(k, nd) \<in> set jn" unfolding jn by simp
    then show "jn \<noteq> []" by auto
  qed
  ultimately show ?thesis
    using l by (simp add: localRehashToMatchRemoteHashType_def Let_def)
qed

text \<open>
  Claim C6, as amended. For every node with a non-empty \<open>remoteHashKind\<close>, the body of the
  comparator's loop changes nothing of the node but its local hash, deletes the node's
  marker whenever the marker reads non-empty, and determines the local hash with this
  priority: a marker equal to \<open>written\<close> makes it the node's \<open>remoteHashValue\<close>; a marker
  equal to \<open>deleted\<close> makes the hash of a node without a dataset-side local hash absent
  (\<open>""\<close>); otherwise, if the node has a dataset-side local hash and the dataset's checksum
  kind equals \<open>remoteHashKind\<close>, that local hash (the dataset's checksum value, as
  \<open>mapToNodes\<close> sets it) is kept; otherwise the cached \<open>remoteHashes[remoteHashKind]\<close> is
  used; and on a cache miss the node is marked for rehash with local hash \<open>"?"\<close> when it has
  a dataset-side local hash, and left with the empty local hash and unmarked when it has
  none. With distinct keys the comparator puts every node into its result as the body
  leaves it, and reports a cache miss when a node is marked.
\<close>

theorem local_hash_priority:
  assumes "RemoteHashType (Attributes nd) \<noteq> []"
    and "localRehashNode knownHashes pid k nd s = ((nd', missed), s')"
  shows "nd' = nd\<lparr>Attributes := (Attributes nd)\<lparr>LocalHash := LocalHash (Attributes nd')\<rparr>\<rparr>
     \<and> s' = (if GetVal s (markerKey pid k) \<noteq> [] then Del (markerKey pid k) s else s)
     \<and> (GetVal s (markerKey pid k) = Written
          \<longrightarrow> LocalHash (Attributes nd') = RemoteHash (Attributes nd) \<and> \<not> missed)
     \<and> (GetVal s (markerKey pid k) = Deleted \<and> LocalHash (Attributes nd) = []
          \<longrightarrow> LocalHash (Attributes nd') = [] \<and> \<not> missed)
     \<and> (GetVal s (markerKey pid k) \<noteq> Written \<and> GetVal s (markerKey pid k) \<noteq> Deleted
          \<longrightarrow>
          (if LocalHash (Attributes nd) \<noteq> []
              \<and> RemoteHashType (Attributes nd)
                   = ChecksumType (Checksum (DataFile (Metadata (Attributes nd))))
           then LocalHash (Attributes nd') = LocalHash (Attributes nd) \<and> \<not> missed
           else (case RemoteHashes (lookupHashes knownHashes (NodeId nd))
                        (RemoteHashType (Attributes nd)) of
                   Some x \<Rightarrow> LocalHash (Attributes nd') = x \<and> \<not> missed
                 | None \<Rightarrow>
                     if LocalHash (Attributes nd) \<noteq> []
                     then LocalHash (Attributes nd') = ''?'' \<and> missed
                     else LocalHash (Attributes nd') = [] \<and> \<not> missed)))
     \<and> (knownHashes = getKnownHashes s pid \<and> distinct (map fst nds) \<and> (k, nd) \<in> set nds
          \<longrightarrow> (k, nd') \<in> set (fst (fst (localRehashToMatchRemoteHashType key pid nds addJobs s)))
              \<and> (missed \<longrightarrow> snd (fst (localRehashToMatchRemoteHashType key pid nds addJobs s))))"
proof -
  have body: "nd' = nd\<lparr>Attributes := (Attributes nd)\<lparr>LocalHash := LocalHash (Attributes nd')\<rparr>\<rparr>
     \<and> s' = (if GetVal s (markerKey pid k) \<noteq> [] then Del (markerKey pid k) s else s)
     \<and> (GetVal s (markerKey pid k) = Written
          \<longrightarrow> LocalHash (Attributes nd') = RemoteHash (Attributes nd) \<and> \<not> missed)
     \<and> (GetVal s (markerKey pid k) = Deleted \<and> LocalHash (Attributes nd) = []
          \<longrightarrow> LocalHash (Attributes nd') = [] \<and> \<not> missed)
     \<and> (GetVal s (markerKey pid k) \<noteq> Written \<and> GetVal s (markerKey pid k) \<noteq> Deleted
          \<longrightarrow>
          (if LocalHash (Attributes nd) \<noteq> []
              \<and> RemoteHashType (Attributes nd)
                   = ChecksumType (Checksum (DataFile (Metadata (Attributes nd))))
           then LocalHash (Attributes nd') = LocalHash (Attributes nd) \<and> \<not> missed
           else (case RemoteHashes (lookupHashes knownHashes (NodeId nd))
                        (RemoteHashType (Attributes nd)) of
                   Some x \<Rightarrow> LocalHash (Attributes nd') = x \<and> \<not> missed
                 | None \<Rightarrow>
                     if LocalHash (Attributes nd) \<noteq> []
                     then LocalHash (Attributes nd') = ''?'' \<and> missed
                     else LocalHash (Attributes nd') = [] \<and> \<not> missed)))"
    using assms marker_values
    by (auto simp: localRehashNode_def Let_def split: option.splits if_splits prod.splits)
  have loop: "knownHashes = getKnownHashes s pid \<and> distinct (map fst nds) \<and> (k, nd) \<in> set nds
      \<longrightarrow> (k, nd') \<in> set (fst (fst (localRehashToMatchRemoteHashType key pid nds addJobs s)))
          \<and> (missed \<longrightarrow> snd (fst (localRehashToMatchRemoteHashType key pid nds addJobs s)))"
    using assms(2) comparator_each [of nds k nd s pid nd' missed s' key addJobs] by blast
  from body loop show ?thesis by blast
qed

lemma source_only_body:
  "localRehashNode Map.empty ''doi:10.5072/FK2/ABC'' ''a.txt'' source_only_node empty_store
     = ((source_only_node, False), empty_store)"
  by (simp add: localRehashNode_def source_only_node_def lookupHashes_def zeroHashes_def
      GetVal_def live_def empty_store_def Written_def Deleted_def Let_def)

text \<open>
  Claim C6 as stated fails at a file that only the source repository has (the fresh
  dataset of the specification's scenario 1): its \<open>remoteHashKind\<close> is non-empty, there is
  no marker, the dataset has no checksum for it and the cache misses, yet the comparator
  does not mark it for rehash and leaves its local hash empty, not \<open>"?"\<close>; no cache miss is
  reported and no job is enqueued.
\<close>

theorem local_hash_priority_counterexample:
  "RemoteHashType (Attributes source_only_node) \<noteq> []
   \<and> GetVal empty_store (markerKey ''doi:10.5072/FK2/ABC'' ''a.txt'') = []
   \<and> RemoteHashes (lookupHashes (getKnownHashes empty_store ''doi:10.5072/FK2/ABC'')
          (NodeId source_only_node)) (RemoteHashType (Attributes source_only_node)) = None
   \<and> localRehashToMatchRemoteHashType ''key'' ''doi:10.5072/FK2/ABC''
        [(''a.txt'', source_only_node)] True empty_store
      = (([(''a.txt'', source_only_node)], False), empty_store)
   \<and> LocalHash (Attributes source_only_node) \<noteq> ''?''"
proof -
  have kh: "getKnownHashes empty_store ''doi:10.5072/FK2/ABC'' = Map.empty"
    by (simp add: getKnownHashes_def live_def empty_store_def)
  have "localRehashToMatchRemoteHashType ''key'' ''doi:10.5072/FK2/ABC''
        [(''a.txt'', source_only_node)] True empty_store
      = (([(''a.txt'', source_only_node)], False), empty_store)"
    by (simp add: localRehashToMatchRemoteHashType_def kh source_only_body)
  moreover have "GetVal empty_store (markerKey ''doi:10.5072/FK2/ABC'' ''a.txt'') = []"
    by (simp add: GetVal_def live_def empty_store_def)
  ultimately show ?thesis
    by (simp add: kh lookupHashes_def zeroHashes_def source_only_node_def)
qed

theorem local_hash_priority_witness:
  "RemoteHashType (Attributes (example_node ''a.txt'' 7 Equal)) \<noteq> []
   \<and> GetVal marked_store (markerKey ''doi:10.5072/FK2/ABC'' ''a.txt'') = Written
   \<and> LocalHash (Attributes (fst (fst (localRehashNode Map.empty ''doi:10.5072/FK2/ABC'' ''a.txt''
          (example_node ''a.txt'' 7 Equal) marked_store))))
      = ''b6fc4c620b67d95f953a5c1c1230aaab5db5a1b0''
   \<and> \<not> snd (fst (localRehashNode Map.empty ''doi:10.5072/FK2/ABC'' ''a.txt''
          (example_node ''a.txt'' 7 Equal) marked_store))
   \<and> snd (localRehashNode Map.empty ''doi:10.5072/FK2/ABC'' ''a.txt''
          (example_node ''a.txt'' 7 Equal) marked_store)
      = Del (markerKey ''doi:10.5072/FK2/ABC'' ''a.txt'') marked_store"
proof -
  let ?nd = "example_node ''a.txt'' 7 Equal"
  let ?r = "localRehashNode Map.empty ''doi:10.5072/FK2/ABC'' ''a.txt'' ?nd marked_store"
  have t: "RemoteHashType (Attributes ?nd) \<noteq> []"
    by (simp add: example_node_def)
  have m: "GetVal marked_store (markerKey ''doi:10.5072/FK2/ABC'' ''a.txt'') = Written"
    by (simp add: GetVal_def live_def marked_store_def)
  have r: "?r = ((fst (fst ?r), snd (fst ?r)), snd ?r)" by simp
  have rh: "RemoteHash (Attributes ?nd) = ''b6fc4c620b67d95f953a5c1c1230aaab5db5a1b0''"
    by (simp add: example_node_def)
  from local_hash_priority [OF t r] t m rh marker_values show ?thesis
    by simp
qed

end
